theory Spec2Isabelle
  imports Main "HOL-Library.Word" "HOL-Library.Multiset"
begin

section \<open>Machine types\<close>

text \<open>
  The unit is compiled for an LP64 target: \<open>size_t\<close> and \<open>ssize_t\<close> are 64 bits wide,
  \<open>int\<close> and \<open>unsigned\<close> 32 bits. They are words; \<open>+\<close> wraps as the C++ unsigned
  addition does, and \<open>size_t += ssize_t\<close> converts the signed operand to \<open>size_t\<close> first,
  which leaves the bit pattern unchanged. A signed value is read with \<open>sint\<close>, an unsigned
  one with \<open>unat\<close>/\<open>uint\<close>; \<open>\<le>\<close> and \<open><\<close> on words are the unsigned comparisons.
  Overflow of a signed addition is undefined in C++; the model follows the compiled code, in
  which the two's complement addition wraps.
\<close>

type_synonym size_t = "64 word"
type_synonym ssize_t = "64 word"
type_synonym uint32 = "32 word"
type_synonym int32 = "32 word"
type_synonym address = "64 word"

section \<open>Collaborators seen through their interface\<close>

text \<open>
  Modelled from the spec: \<open>enum Arena::Tag\<close> (memory/arena.hpp) is not part of the unit.
  \<open>account\<close> names two of its members, \<open>tag_ra\<close> (resource areas) and \<open>tag_node\<close> (node
  arenas), and sends every other value to the \<open>default\<close> branch; \<open>tag_other\<close> stands for all
  of those. \<open>on_arena_change\<close> passes \<open>(int)arena->get_tag()\<close> and \<open>account\<close> casts it back,
  so the model passes the tag itself.
\<close>

datatype Tag = tag_other | tag_ra | tag_node

text \<open>
  Modelled from the spec: \<open>enum CompilerType\<close> (compiler/compilerDefinitions.hpp) is not
  part of the unit; the backend kinds, of which \<open>compiler_c2\<close> is the one that exposes the
  live node count.
\<close>

datatype CompilerType = compiler_none | compiler_c1 | compiler_c2 | compiler_jvmci

text \<open>
  \<open>FullMethodName\<close>: three \<open>Symbol*\<close>; \<open>equals\<close> compares the pointers, which is the
  equality of the record.
\<close>

record FullMethodName =
  fmn_k :: address
  fmn_m :: address
  fmn_s :: address

text \<open>
  What \<open>update_c2_node_count\<close>, \<open>on_end_compilation\<close> and \<open>MemStatTable::add\<close> read from
  the running thread: the preprocessor symbol \<open>COMPILER2\<close>, the thread's current task
  (\<open>None\<close> for \<open>nullptr\<close>) with \<open>task->compiler()\<close> (\<open>None\<close> for \<open>nullptr\<close>, otherwise its
  \<open>type()\<close>), the task's method name and its directive's two flags;
  \<open>Compile::current()\<close> (\<open>None\<close> for \<open>nullptr\<close>, otherwise its \<open>live_nodes()\<close>),
  \<open>Thread::current()\<close> as an address and \<open>os::elapsedTime()\<close> as the bits of the double.
\<close>

record CompileTask =
  task_compiler :: "CompilerType option"
  task_method :: FullMethodName
  should_collect_memstat :: bool
  should_print_memstat :: bool

record ThreadEnv =
  COMPILER2 :: bool
  th_task :: "CompileTask option"
  Compile_current :: "uint32 option"
  Thread_current :: address
  os_elapsedTime :: "64 word"

section \<open>ArenaStatCounter\<close>

record ArenaStatCounter =
  asc_current :: size_t
  asc_start :: size_t
  asc_peak :: size_t
  asc_na :: size_t
  asc_ra :: size_t
  asc_na_at_peak :: size_t
  asc_ra_at_peak :: size_t
  asc_live_nodes_at_peak :: uint32

text \<open>The constructor \<open>ArenaStatCounter::ArenaStatCounter()\<close>.\<close>

definition ArenaStatCounter_new :: ArenaStatCounter where
  "ArenaStatCounter_new =
     \<lparr>asc_current = 0, asc_start = 0, asc_peak = 0, asc_na = 0, asc_ra = 0,
      asc_na_at_peak = 0, asc_ra_at_peak = 0, asc_live_nodes_at_peak = 0\<rparr>"

definition peak_since_start :: "ArenaStatCounter \<Rightarrow> size_t" where
  "peak_since_start s =
     (if asc_peak s > asc_start s then asc_peak s - asc_start s else 0)"

text \<open>\<open>_peak = _start = _current;\<close>\<close>

definition start :: "ArenaStatCounter \<Rightarrow> ArenaStatCounter" where
  "start s = (let s1 = s\<lparr>asc_start := asc_current s\<rparr> in s1\<lparr>asc_peak := asc_start s1\<rparr>)"

definition update_c2_node_count :: "ThreadEnv \<Rightarrow> ArenaStatCounter \<Rightarrow> ArenaStatCounter" where
  "update_c2_node_count env s =
     (if COMPILER2 env then
        (case th_task env of
           None \<Rightarrow> s
         | Some task \<Rightarrow>
            (case task_compiler task of
               None \<Rightarrow> s
             | Some ty \<Rightarrow>
                if ty = compiler_c2 then
                  (case Compile_current env of
                     None \<Rightarrow> s
                   | Some live_nodes \<Rightarrow> s\<lparr>asc_live_nodes_at_peak := live_nodes\<rparr>)
                else s))
      else s)"

text \<open>The \<open>switch\<close> on the tag: the detail counter that matches takes the delta.\<close>

definition update_detail :: "ssize_t \<Rightarrow> Tag \<Rightarrow> ArenaStatCounter \<Rightarrow> ArenaStatCounter" where
  "update_detail delta tag s =
     (case tag of
        tag_ra \<Rightarrow> s\<lparr>asc_ra := asc_ra s + delta\<rparr>
      | tag_node \<Rightarrow> s\<lparr>asc_na := asc_na s + delta\<rparr>
      | tag_other \<Rightarrow> s)"

text \<open>The statements of the \<open>if (_current > _peak)\<close> branch, the node count last.\<close>

definition reach_peak :: "ThreadEnv \<Rightarrow> ArenaStatCounter \<Rightarrow> ArenaStatCounter" where
  "reach_peak env s =
     update_c2_node_count env
       (s\<lparr>asc_peak := asc_current s, asc_na_at_peak := asc_na s, asc_ra_at_peak := asc_ra s\<rparr>)"

text \<open>
  \<open>ArenaStatCounter::account\<close> as a product build runs it (\<open>ASSERT\<close> undefined, both
  assertions compiled out): the result is the return value \<open>rc\<close> and the counter.
\<close>

definition account :: "ThreadEnv \<Rightarrow> ssize_t \<Rightarrow> Tag \<Rightarrow> ArenaStatCounter \<Rightarrow> bool \<times> ArenaStatCounter" where
  "account env delta tag s =
     (let s1 = s\<lparr>asc_current := asc_current s + delta\<rparr>;
          s2 = update_detail delta tag s1
      in if asc_current s2 > asc_peak s2 then (True, reach_peak env s2) else (False, s2))"

text \<open>
  The same function in a debug build (\<open>ASSERT\<close> defined). A failed \<open>assert\<close> ends the VM;
  it is the \<open>Inl\<close> result, carrying the assertion's message. The first assertion casts
  \<open>_current\<close> to \<open>ssize_t\<close>, adds the delta in \<open>ssize_t\<close> and reads the sign of the sum.
\<close>

datatype vm_error = assert_failed string

definition account_debug ::
  "ThreadEnv \<Rightarrow> ssize_t \<Rightarrow> Tag \<Rightarrow> ArenaStatCounter \<Rightarrow> vm_error + bool \<times> ArenaStatCounter" where
  "account_debug env delta tag s =
     (if \<not> (0 \<le> sint delta \<or> 0 \<le> sint (asc_current s + delta))
      then Inl (assert_failed ''Negative overflow'')
      else
        let s1 = s\<lparr>asc_current := asc_current s + delta\<rparr>;
            s2 = update_detail delta tag s1
        in if asc_current s2 > asc_peak s2 then
             (if \<not> 0 < sint delta then Inl (assert_failed ''Sanity'')
              else Inr (True, reach_peak env s2))
           else Inr (False, s2))"

text \<open>
  A tracker's life is a sequence of \<open>start()\<close> and \<open>account(delta, tag)\<close> calls; every
  \<open>account\<close> call sees the thread as it is at that moment.
\<close>

datatype call = Start | Account ThreadEnv ssize_t Tag

fun apply_call :: "ArenaStatCounter \<Rightarrow> call \<Rightarrow> ArenaStatCounter" where
  "apply_call s Start = start s"
| "apply_call s (Account env delta tag) = snd (account env delta tag s)"

definition run_calls :: "call list \<Rightarrow> ArenaStatCounter \<Rightarrow> ArenaStatCounter" where
  "run_calls cs s = foldl apply_call s cs"

text \<open>The debug build stops at the first failed assertion.\<close>

fun apply_call_debug :: "ArenaStatCounter \<Rightarrow> call \<Rightarrow> vm_error + ArenaStatCounter" where
  "apply_call_debug s Start = Inr (start s)"
| "apply_call_debug s (Account env delta tag) =
     (case account_debug env delta tag s of Inl e \<Rightarrow> Inl e | Inr r \<Rightarrow> Inr (snd r))"

fun run_calls_debug :: "call list \<Rightarrow> ArenaStatCounter \<Rightarrow> vm_error + ArenaStatCounter" where
  "run_calls_debug [] s = Inr s"
| "run_calls_debug (c # cs) s =
     (case apply_call_debug s c of Inl e \<Rightarrow> Inl e | Inr s' \<Rightarrow> run_calls_debug cs s')"

text \<open>
  The signed delta a call contributes to the running total (\<open>start()\<close> contributes
  nothing), and two conditions on a window's deltas, both over the integers: the stated
  precondition of \<open>account\<close>, that the running total \<open>t\<close> is never negative at any
  prefix, and the stronger one that every prefix total also fits \<open>ssize_t\<close>.
\<close>

fun call_delta :: "call \<Rightarrow> int" where
  "call_delta Start = 0"
| "call_delta (Account env delta tag) = sint delta"


fun prefix_totals_in_range :: "int \<Rightarrow> int list \<Rightarrow> bool" where
  "prefix_totals_in_range t [] = (0 \<le> t \<and> t < 2 ^ 63)"
| "prefix_totals_in_range t (d # ds) = (0 \<le> t \<and> t < 2 ^ 63 \<and> prefix_totals_in_range (t + d) ds)"

section \<open>MemStatEntry\<close>

text \<open>
  \<open>_time\<close> holds the bits of the double, \<open>_thread\<close> the address (0 for \<open>nullptr\<close>).
  \<open>_num_recomp\<close> is a C++ \<open>int\<close>, 32 bits, read with \<open>sint\<close>; \<open>_num_recomp++\<close> at
  \<open>INT_MAX\<close> gives \<open>INT_MIN\<close> in the compiled code, as \<open>+ 1\<close> on the word does.
\<close>

record MemStatEntry =
  mse_method :: FullMethodName
  mse_comptype :: CompilerType
  mse_time :: "64 word"
  mse_num_recomp :: int32
  mse_thread :: address
  mse_total :: size_t
  mse_na_at_peak :: size_t
  mse_ra_at_peak :: size_t
  mse_live_nodes_at_peak :: uint32

text \<open>The constructor \<open>MemStatEntry(FullMethodName method)\<close>.\<close>

definition MemStatEntry_new :: "FullMethodName \<Rightarrow> MemStatEntry" where
  "MemStatEntry_new method =
     \<lparr>mse_method = method, mse_comptype = compiler_c1, mse_time = 0, mse_num_recomp = 0,
      mse_thread = 0, mse_total = 0, mse_na_at_peak = 0, mse_ra_at_peak = 0,
      mse_live_nodes_at_peak = 0\<rparr>"

definition set_comptype :: "CompilerType \<Rightarrow> MemStatEntry \<Rightarrow> MemStatEntry" where
  "set_comptype comptype e = e\<lparr>mse_comptype := comptype\<rparr>"

definition set_current_time :: "ThreadEnv \<Rightarrow> MemStatEntry \<Rightarrow> MemStatEntry" where
  "set_current_time env e = e\<lparr>mse_time := os_elapsedTime env\<rparr>"

definition set_current_thread :: "ThreadEnv \<Rightarrow> MemStatEntry \<Rightarrow> MemStatEntry" where
  "set_current_thread env e = e\<lparr>mse_thread := Thread_current env\<rparr>"

definition inc_recompilation :: "MemStatEntry \<Rightarrow> MemStatEntry" where
  "inc_recompilation e = e\<lparr>mse_num_recomp := mse_num_recomp e + 1\<rparr>"

definition set_total :: "size_t \<Rightarrow> MemStatEntry \<Rightarrow> MemStatEntry" where
  "set_total n e = e\<lparr>mse_total := n\<rparr>"

definition set_na_at_peak :: "size_t \<Rightarrow> MemStatEntry \<Rightarrow> MemStatEntry" where
  "set_na_at_peak n e = e\<lparr>mse_na_at_peak := n\<rparr>"

definition set_ra_at_peak :: "size_t \<Rightarrow> MemStatEntry \<Rightarrow> MemStatEntry" where
  "set_ra_at_peak n e = e\<lparr>mse_ra_at_peak := n\<rparr>"

definition set_live_nodes_at_peak :: "uint32 \<Rightarrow> MemStatEntry \<Rightarrow> MemStatEntry" where
  "set_live_nodes_at_peak n e = e\<lparr>mse_live_nodes_at_peak := n\<rparr>"

definition total :: "MemStatEntry \<Rightarrow> size_t" where
  "total e = mse_total e"

text \<open>\<open>this->compare_by_size(b)\<close>: negative when \<open>this\<close> is the larger of the two.\<close>

definition compare_by_size :: "MemStatEntry \<Rightarrow> MemStatEntry \<Rightarrow> int" where
  "compare_by_size this b =
     (let x1 = mse_total b; x2 = mse_total this
      in if x1 < x2 then - 1 else if x1 = x2 then 0 else 1)"

section \<open>Output streams\<close>

text \<open>
  An \<open>outputStream\<close> is the list of the lines written to it. \<open>print_cr\<close> adds a line of
  text and \<open>cr()\<close> after a finished line an empty one. The line that
  \<open>MemStatEntry::print_on\<close> writes for an entry, and the one \<open>on_end_compilation\<close> writes to
  \<open>tty\<close>, are built with formatting code from outside the unit (\<open>PROPERFMT\<close>, \<open>fill_to\<close>,
  \<open>%.3f\<close>, \<open>PTR_FORMAT\<close>, \<open>Symbol::as_C_string\<close>); each is kept as a line of its own kind
  that carries what is printed.
\<close>

datatype line =
  Text string
| EntryRow MemStatEntry bool
| ArenaUsage CompilerType FullMethodName ArenaStatCounter

definition print_legend :: "line list" where
  "print_legend =
     [Text ''Legend:'',
      Text ''  total  : memory allocated via arenas while compiling'',
      Text ''  NA     : ...how much in node arenas (if c2)'',
      Text ''  RA     : ...how much in resource areas'',
      Text ''  #nodes : ...how many nodes (if c2)'',
      Text ''  time   : time of last compilation (sec)'',
      Text ''  type   : compiler type'',
      Text ''  #rc    : how often recompiled'',
      Text ''  thread : compiler thread'']"

definition print_header :: "line list" where
  "print_header =
     [Text ''total     NA        RA        #nodes  time    type  #rc thread              method'']"

definition print_on :: "MemStatEntry \<Rightarrow> bool \<Rightarrow> line list" where
  "print_on e human_readable = [EntryRow e human_readable]"

text \<open>The conversions \<open>%zu\<close> and \<open>%d\<close> of \<open>printf\<close>: decimal digits, a sign for \<open>%d\<close>.\<close>

fun show_nat :: "nat \<Rightarrow> string" where
  "show_nat n =
     (if n < 10 then [''0123456789'' ! n]
      else show_nat (n div 10) @ [''0123456789'' ! (n mod 10)])"

declare show_nat.simps [simp del]

definition show_int :: "int \<Rightarrow> string" where
  "show_int i = (if i < 0 then CHR ''-'' # show_nat (nat (- i)) else show_nat (nat i))"

section \<open>MemStatTable\<close>

text \<open>
  Modelled from the spec: \<open>ResourceHashtable\<close> (utilities/resourceHash.hpp), the base
  class of \<open>MemStatTable\<close>, is not part of the unit. The spec describes it as a mapping from
  method identity to record with at most one record per identity. The table is the list of
  its (key, entry) pairs in the order in which \<open>iterate_all\<close> visits them; \<open>get\<close> finds the
  entry of a key, \<open>put\<close> replaces the entry of a key that is present and adds a pair for one
  that is not, \<open>number_of_entries\<close> counts the pairs. Where a new pair lands in the
  iteration order depends on the hash function; the model puts it last, and nothing proved
  below depends on the place. The table holds \<open>MemStatEntry*\<close>; every entry is allocated by
  \<open>add\<close> and referenced by the table alone, so the model holds the entries themselves and a
  write through the pointer is a \<open>put\<close> under the same key.
\<close>

type_synonym MemStatTable = "(FullMethodName \<times> MemStatEntry) list"

definition get :: "MemStatTable \<Rightarrow> FullMethodName \<Rightarrow> MemStatEntry option" where
  "get tbl k = map_of tbl k"

fun put :: "FullMethodName \<Rightarrow> MemStatEntry \<Rightarrow> MemStatTable \<Rightarrow> MemStatTable" where
  "put k v [] = [(k, v)]"
| "put k v ((k', v') # tbl) = (if k' = k then (k, v) # tbl else (k', v') # put k v tbl)"

definition number_of_entries :: "MemStatTable \<Rightarrow> nat" where
  "number_of_entries tbl = length tbl"

definition iterate_all ::
  "(FullMethodName \<Rightarrow> MemStatEntry \<Rightarrow> 'a \<Rightarrow> 'a) \<Rightarrow> MemStatTable \<Rightarrow> 'a \<Rightarrow> 'a" where
  "iterate_all f tbl acc = fold (\<lambda>(k, e). f k e) tbl acc"

text \<open>
  \<open>MemStatTable::add\<close>. \<open>e\<close> is the entry the pointer refers to: the new one, already put
  into the table, or the one found. The eight setters run in the order of the source and
  their result is written back under \<open>fmn\<close>.
\<close>

definition add ::
  "ThreadEnv \<Rightarrow> FullMethodName \<Rightarrow> CompilerType \<Rightarrow> size_t \<Rightarrow> size_t \<Rightarrow> size_t \<Rightarrow> uint32 \<Rightarrow>
   MemStatTable \<Rightarrow> MemStatTable" where
  "add env fmn comptype total_arg na_at_peak ra_at_peak live_nodes_at_peak tbl =
     (let (e, tbl1) =
            (case get tbl fmn of
               None \<Rightarrow> (let e = MemStatEntry_new fmn in (e, put fmn e tbl))
             | Some e \<Rightarrow> (e, tbl));
          e1 = set_current_time env e;
          e2 = set_current_thread env e1;
          e3 = set_comptype comptype e2;
          e4 = inc_recompilation e3;
          e5 = set_total total_arg e4;
          e6 = set_na_at_peak na_at_peak e5;
          e7 = set_ra_at_peak ra_at_peak e6;
          e8 = set_live_nodes_at_peak live_nodes_at_peak e7
      in put fmn e8 tbl1)"

text \<open>
  \<open>MemStatTable::calc_flat_array\<close>. \<open>flat\<close> is the C-heap array of \<open>num_all\<close> slots, a slot
  that has not been written being \<open>None\<close>; \<open>do_f\<close> is the lambda, with the array and the
  index \<open>i\<close> it captures by reference as its state. The result is the array and \<open>num\<close>.
  \<open>i\<close>, \<open>num\<close> and \<open>num_all\<close> are C++ \<open>int\<close>s that count entries of the table.
\<close>

definition do_f ::
  "size_t \<Rightarrow> FullMethodName \<Rightarrow> MemStatEntry \<Rightarrow> MemStatEntry option list \<times> nat \<Rightarrow>
   MemStatEntry option list \<times> nat" where
  "do_f min_size ignored e st =
     (case st of (flat, i) \<Rightarrow>
        if total e \<ge> min_size then (flat[i := Some e], i + 1) else (flat, i))"

definition calc_flat_array :: "MemStatTable \<Rightarrow> size_t \<Rightarrow> MemStatEntry option list \<times> nat" where
  "calc_flat_array tbl min_size =
     (let num_all = number_of_entries tbl;
          flat = replicate num_all None
      in iterate_all (do_f min_size) tbl (flat, 0))"

section \<open>Sorting\<close>

text \<open>
  Modelled from the spec: \<open>QuickSort::sort\<close> (utilities/quickSort.hpp) is not part of the
  unit. The spec asks for a comparison sort driven by the comparator, with no promise about
  the order of equal keys. \<open>QuickSort_sort array length comparator\<close> sorts the first
  \<open>length\<close> slots of the array and leaves the rest: an element goes before the pivot when the
  comparator says it is smaller.
\<close>

fun qsort :: "('a \<Rightarrow> 'a \<Rightarrow> int) \<Rightarrow> 'a list \<Rightarrow> 'a list" where
  "qsort comparator [] = []"
| "qsort comparator (p # xs) =
     qsort comparator (filter (\<lambda>x. comparator x p < 0) xs)
     @ p # qsort comparator (filter (\<lambda>x. \<not> comparator x p < 0) xs)"

definition QuickSort_sort :: "'a list \<Rightarrow> nat \<Rightarrow> ('a \<Rightarrow> 'a \<Rightarrow> int) \<Rightarrow> 'a list" where
  "QuickSort_sort array len comparator = qsort comparator (take len array) @ drop len array"

text \<open>
  \<open>diff_entries_by_size\<close> compares two slots of the array through their pointers. A slot is
  only read below \<open>num\<close>, where \<open>calc_flat_array\<close> has written it.
\<close>

definition diff_entries_by_size :: "MemStatEntry option \<Rightarrow> MemStatEntry option \<Rightarrow> int" where
  "diff_entries_by_size e1 e2 = compare_by_size (the e1) (the e2)"

section \<open>CompilationMemoryStatistic\<close>

text \<open>The two globals \<open>_enabled\<close> and \<open>_the_table\<close> (\<open>None\<close> for \<open>nullptr\<close>).\<close>

record CompilationMemoryStatistic =
  enabled :: bool
  the_table :: "MemStatTable option"

definition before_initialize :: CompilationMemoryStatistic where
  "before_initialize = \<lparr>enabled = False, the_table = None\<rparr>"

text \<open>
  The facade as a product build runs it; its \<open>assert\<close>s (\<open>enabled()\<close>, "Only once",
  the directive's \<open>should_collect_memstat\<close>) are compiled out. A \<open>nullptr\<close> that the code
  dereferences is the error \<open>null_dereference\<close>.
\<close>

datatype crash = null_dereference

definition initialize :: "CompilationMemoryStatistic \<Rightarrow> CompilationMemoryStatistic" where
  "initialize g = (let g1 = g\<lparr>the_table := Some []\<rparr> in g1\<lparr>enabled := True\<rparr>)"

definition on_start_compilation :: "ArenaStatCounter \<Rightarrow> ArenaStatCounter" where
  "on_start_compilation arena_stat = start arena_stat"

definition on_arena_change :: "ThreadEnv \<Rightarrow> ssize_t \<Rightarrow> Tag \<Rightarrow> ArenaStatCounter \<Rightarrow> ArenaStatCounter" where
  "on_arena_change env diff tag arena_stat = snd (account env diff tag arena_stat)"

text \<open>
  \<open>on_end_compilation\<close>: the result is what went to \<open>tty\<close> and the globals with the
  table after \<open>add\<close>. \<open>make_permanent\<close> changes reference counts of the symbols only.
\<close>

definition on_end_compilation ::
  "ThreadEnv \<Rightarrow> ArenaStatCounter \<Rightarrow> CompilationMemoryStatistic \<Rightarrow>
   crash + line list \<times> CompilationMemoryStatistic" where
  "on_end_compilation env arena_stat g =
     (case th_task env of
        None \<Rightarrow> Inl null_dereference
      | Some task \<Rightarrow>
         (case task_compiler task of
            None \<Rightarrow> Inl null_dereference
          | Some ct \<Rightarrow>
             let fmn = task_method task;
                 print = should_print_memstat task;
                 tty = (if print then [ArenaUsage ct fmn arena_stat] else [])
             in (case the_table g of
                   None \<Rightarrow> Inl null_dereference
                 | Some tbl \<Rightarrow>
                     Inr (tty,
                          g\<lparr>the_table := Some
                              (add env fmn ct
                                 (peak_since_start arena_stat)
                                 (asc_na_at_peak arena_stat)
                                 (asc_ra_at_peak arena_stat)
                                 (asc_live_nodes_at_peak arena_stat) tbl)\<rparr>))))"

text \<open>\<open>print_all_by_size\<close>: the lines written to \<open>st\<close>.\<close>

definition print_all_by_size ::
  "CompilationMemoryStatistic \<Rightarrow> bool \<Rightarrow> size_t \<Rightarrow> line list" where
  "print_all_by_size g human_readable min_size =
     [Text ''Compilation memory statistics''] @
     (if \<not> enabled g then [Text ''(unavailable)'']
      else
        [Text ''''] @ print_legend @ [Text ''''] @
        (if min_size > 0 then [Text ('' (cutoff: '' @ show_nat (unat min_size) @ '' bytes)'')]
         else []) @
        [Text ''''] @ print_header @
        (case the_table g of
           Some tbl \<Rightarrow>
             (case calc_flat_array tbl min_size of (filtered, num) \<Rightarrow>
                (if min_size > 0
                 then [Text (''('' @ show_int (int num) @ ''/''
                             @ show_int (int (number_of_entries tbl)) @ '')'')]
                 else []) @
                (if num > 0 then
                   (let sorted = QuickSort_sort filtered num diff_entries_by_size
                    in concat (map (\<lambda>i. print_on (the (sorted ! i)) human_readable) [0..<num]))
                 else [Text ''No entries.'']))
         | None \<Rightarrow> [Text ''Not initialized.'']))"

text \<open>The entries of the record rows among some lines, in the order of the lines.\<close>

fun rows_of :: "line list \<Rightarrow> MemStatEntry list" where
  "rows_of [] = []"
| "rows_of (EntryRow e h # ls) = e # rows_of ls"
| "rows_of (l # ls) = rows_of ls"

text \<open>
  One compilation as the scoped mark brackets it: \<open>on_start_compilation\<close>, the arena
  changes of the compilation, \<open>on_end_compilation\<close> on the thread as it is at the end.
\<close>

definition compilation ::
  "(ThreadEnv \<times> ssize_t \<times> Tag) list \<Rightarrow> ThreadEnv \<Rightarrow>
   ArenaStatCounter \<times> CompilationMemoryStatistic \<Rightarrow>
   crash + ArenaStatCounter \<times> CompilationMemoryStatistic" where
  "compilation changes env_end st =
     (case st of (arena_stat, g) \<Rightarrow>
        let a1 = on_start_compilation arena_stat;
            a2 = fold (\<lambda>(env, diff, tag). on_arena_change env diff tag) changes a1
        in (case on_end_compilation env_end a2 g of
              Inl c \<Rightarrow> Inl c
            | Inr (tty, g') \<Rightarrow> Inr (a2, g')))"

text \<open>The backend of the compilation a thread is running, if any.\<close>

definition active_backend :: "ThreadEnv \<Rightarrow> CompilerType option" where
  "active_backend env = (case th_task env of None \<Rightarrow> None | Some task \<Rightarrow> task_compiler task)"

section \<open>Sequences of upserts\<close>

text \<open>
  The arguments of one call of \<open>add\<close>, together with the thread that makes it; a sequence
  of calls; and the entries the table holds for one identity, in iteration order.
\<close>

record add_call =
  a_env :: ThreadEnv
  a_fmn :: FullMethodName
  a_comptype :: CompilerType
  a_total :: size_t
  a_na_at_peak :: size_t
  a_ra_at_peak :: size_t
  a_live_nodes_at_peak :: uint32

definition add_one :: "add_call \<Rightarrow> MemStatTable \<Rightarrow> MemStatTable" where
  "add_one a tbl =
     add (a_env a) (a_fmn a) (a_comptype a) (a_total a) (a_na_at_peak a) (a_ra_at_peak a)
       (a_live_nodes_at_peak a) tbl"

definition add_all :: "add_call list \<Rightarrow> MemStatTable \<Rightarrow> MemStatTable" where
  "add_all cs tbl = fold add_one cs tbl"

definition records_of :: "MemStatTable \<Rightarrow> FullMethodName \<Rightarrow> MemStatEntry list" where
  "records_of tbl fmn = map snd (filter (\<lambda>p. fst p = fmn) tbl)"

text \<open>
  What one call of \<open>add\<close> does to the entry it works on, and the entry it starts from at
  the first call for an identity: the one in the table or a new one.
\<close>

definition stamp :: "add_call \<Rightarrow> MemStatEntry \<Rightarrow> MemStatEntry" where
  "stamp a e =
     e\<lparr>mse_time := os_elapsedTime (a_env a), mse_thread := Thread_current (a_env a),
       mse_comptype := a_comptype a, mse_num_recomp := mse_num_recomp e + 1,
       mse_total := a_total a, mse_na_at_peak := a_na_at_peak a,
       mse_ra_at_peak := a_ra_at_peak a, mse_live_nodes_at_peak := a_live_nodes_at_peak a\<rparr>"

definition entry_before :: "MemStatTable \<Rightarrow> FullMethodName \<Rightarrow> MemStatEntry" where
  "entry_before tbl fmn = (case records_of tbl fmn of [] \<Rightarrow> MemStatEntry_new fmn | e # _ \<Rightarrow> e)"

text \<open>
  The entries of a table whose total reaches \<open>min_size\<close>, in iteration order, and the
  shape of a table that \<open>add\<close> maintains: no key twice, every entry filed under its own
  method name.
\<close>

definition qualifying :: "MemStatTable \<Rightarrow> size_t \<Rightarrow> MemStatEntry list" where
  "qualifying tbl min_size = filter (\<lambda>e. min_size \<le> total e) (map snd tbl)"

definition table_ok :: "MemStatTable \<Rightarrow> bool" where
  "table_ok tbl \<longleftrightarrow> distinct (map fst tbl) \<and> (\<forall>(k, e) \<in> set tbl. mse_method e = k)"

text \<open>The snapshot after sorting, as the list of entries the print loop goes through.\<close>

definition sorted_snapshot :: "MemStatTable \<Rightarrow> size_t \<Rightarrow> MemStatEntry list" where
  "sorted_snapshot tbl min_size =
     map the (qsort diff_entries_by_size (map Some (qualifying tbl min_size)))"

text \<open>
  Calls and arena changes made while the thread's backend is not C2; two compilations, one
  after the other, on the same thread and tracker; and what the registry holds for a method
  after a run: the compiler type and the node count of its entry.
\<close>

fun non_c2_call :: "call \<Rightarrow> bool" where
  "non_c2_call Start = True"
| "non_c2_call (Account env delta tag) = (active_backend env \<noteq> Some compiler_c2)"

definition non_c2_change :: "ThreadEnv \<times> ssize_t \<times> Tag \<Rightarrow> bool" where
  "non_c2_change ch = (active_backend (fst ch) \<noteq> Some compiler_c2)"

definition two_compilations ::
  "(ThreadEnv \<times> ssize_t \<times> Tag) list \<Rightarrow> ThreadEnv \<Rightarrow> (ThreadEnv \<times> ssize_t \<times> Tag) list \<Rightarrow> ThreadEnv \<Rightarrow>
   ArenaStatCounter \<times> CompilationMemoryStatistic \<Rightarrow>
   crash + ArenaStatCounter \<times> CompilationMemoryStatistic" where
  "two_compilations changes1 env1 changes2 env2 st =
     (case compilation changes1 env1 st of
        Inl c \<Rightarrow> Inl c
      | Inr st1 \<Rightarrow> compilation changes2 env2 st1)"

definition recorded ::
  "crash + ArenaStatCounter \<times> CompilationMemoryStatistic \<Rightarrow> FullMethodName \<Rightarrow>
   (CompilerType \<times> uint32) option" where
  "recorded r fmn =
     (case r of
        Inl c \<Rightarrow> None
      | Inr st \<Rightarrow>
         (case the_table (snd st) of
            None \<Rightarrow> None
          | Some tbl \<Rightarrow>
             map_option (\<lambda>e. (mse_comptype e, mse_live_nodes_at_peak e)) (get tbl fmn)))"

text \<open>
  Concrete threads for the examples: one in the middle of a C2 compilation of
  \<open>example_method\<close> whose graph has \<open>n\<close> live nodes, one in the middle of a C1 compilation
  of \<open>other_method\<close>.
\<close>

definition example_method :: FullMethodName where
  "example_method = \<lparr>fmn_k = 4096, fmn_m = 4104, fmn_s = 4112\<rparr>"

definition other_method :: FullMethodName where
  "other_method = \<lparr>fmn_k = 4096, fmn_m = 4120, fmn_s = 4112\<rparr>"

definition example_task :: "CompilerType \<Rightarrow> FullMethodName \<Rightarrow> CompileTask" where
  "example_task ty m =
     \<lparr>task_compiler = Some ty, task_method = m,
      should_collect_memstat = True, should_print_memstat = False\<rparr>"

definition c2_thread :: "uint32 \<Rightarrow> ThreadEnv" where
  "c2_thread n =
     \<lparr>COMPILER2 = True, th_task = Some (example_task compiler_c2 example_method),
      Compile_current = Some n, Thread_current = 65536, os_elapsedTime = 0\<rparr>"

definition c1_thread :: ThreadEnv where
  "c1_thread =
     \<lparr>COMPILER2 = True, th_task = Some (example_task compiler_c1 other_method),
      Compile_current = None, Thread_current = 69632, os_elapsedTime = 0\<rparr>"

text \<open>An upsert of the examples: a C2 compilation of method \<open>m\<close> that peaked at \<open>n\<close> bytes.\<close>

definition upsert :: "FullMethodName \<Rightarrow> size_t \<Rightarrow> add_call" where
  "upsert m n =
     \<lparr>a_env = c2_thread 7, a_fmn = m, a_comptype = compiler_c2, a_total = n,
      a_na_at_peak = 0, a_ra_at_peak = n, a_live_nodes_at_peak = 7\<rparr>"

text \<open>A registry of the examples: three methods with totals 5000, 1000 and 3000.\<close>

definition third_method :: FullMethodName where
  "third_method = \<lparr>fmn_k = 4096, fmn_m = 4128, fmn_s = 4112\<rparr>"

definition example_registry :: CompilationMemoryStatistic where
  "example_registry =
     (initialize before_initialize)
       \<lparr>the_table := Some (add_all [upsert example_method 5000, upsert other_method 1000,
                                   upsert third_method 3000] [])\<rparr>"

section \<open>Field-wise effect of the tracker's operations\<close>

lemma update_c2_node_count_frame [simp]:
  "asc_current (update_c2_node_count env s) = asc_current s"
  "asc_start (update_c2_node_count env s) = asc_start s"
  "asc_peak (update_c2_node_count env s) = asc_peak s"
  "asc_na (update_c2_node_count env s) = asc_na s"
  "asc_ra (update_c2_node_count env s) = asc_ra s"
  "asc_na_at_peak (update_c2_node_count env s) = asc_na_at_peak s"
  "asc_ra_at_peak (update_c2_node_count env s) = asc_ra_at_peak s"
  by (simp_all add: update_c2_node_count_def split: option.splits)

lemma update_detail_frame [simp]:
  "asc_current (update_detail d t s) = asc_current s"
  "asc_start (update_detail d t s) = asc_start s"
  "asc_peak (update_detail d t s) = asc_peak s"
  "asc_na_at_peak (update_detail d t s) = asc_na_at_peak s"
  "asc_ra_at_peak (update_detail d t s) = asc_ra_at_peak s"
  "asc_live_nodes_at_peak (update_detail d t s) = asc_live_nodes_at_peak s"
  by (simp_all add: update_detail_def split: Tag.splits)

lemma update_detail_na:
  "asc_na (update_detail d t s) = (if t = tag_node then asc_na s + d else asc_na s)"
  by (simp add: update_detail_def split: Tag.splits)

lemma update_detail_ra:
  "asc_ra (update_detail d t s) = (if t = tag_ra then asc_ra s + d else asc_ra s)"
  by (simp add: update_detail_def split: Tag.splits)

lemma account_current [simp]:
  "asc_current (snd (account env d t s)) = asc_current s + d"
  by (simp add: account_def reach_peak_def Let_def)

lemma account_start [simp]:
  "asc_start (snd (account env d t s)) = asc_start s"
  by (simp add: account_def reach_peak_def Let_def)

lemma account_rc:
  "fst (account env d t s) = (asc_peak s < asc_current s + d)"
  by (simp add: account_def Let_def)

lemma account_peak:
  "asc_peak (snd (account env d t s)) =
     (if asc_peak s < asc_current s + d then asc_current s + d else asc_peak s)"
  by (simp add: account_def reach_peak_def Let_def)

lemma account_na [simp]:
  "asc_na (snd (account env d t s)) = (if t = tag_node then asc_na s + d else asc_na s)"
  by (simp add: account_def reach_peak_def Let_def update_detail_na)

lemma account_ra [simp]:
  "asc_ra (snd (account env d t s)) = (if t = tag_ra then asc_ra s + d else asc_ra s)"
  by (simp add: account_def reach_peak_def Let_def update_detail_ra)

lemma account_na_at_peak:
  "asc_na_at_peak (snd (account env d t s)) =
     (if asc_peak s < asc_current s + d then asc_na (snd (account env d t s))
      else asc_na_at_peak s)"
  by (simp add: account_def reach_peak_def Let_def update_detail_na)

lemma account_ra_at_peak:
  "asc_ra_at_peak (snd (account env d t s)) =
     (if asc_peak s < asc_current s + d then asc_ra (snd (account env d t s))
      else asc_ra_at_peak s)"
  by (simp add: account_def reach_peak_def Let_def update_detail_ra)

lemma account_live_nodes_no_peak:
  "\<not> asc_peak s < asc_current s + d \<Longrightarrow>
   asc_live_nodes_at_peak (snd (account env d t s)) = asc_live_nodes_at_peak s"
  by (simp add: account_def Let_def)

lemma start_fields [simp]:
  "asc_current (start s) = asc_current s"
  "asc_start (start s) = asc_current s"
  "asc_peak (start s) = asc_current s"
  "asc_na (start s) = asc_na s"
  "asc_ra (start s) = asc_ra s"
  "asc_na_at_peak (start s) = asc_na_at_peak s"
  "asc_ra_at_peak (start s) = asc_ra_at_peak s"
  "asc_live_nodes_at_peak (start s) = asc_live_nodes_at_peak s"
  by (simp_all add: start_def Let_def)

lemma account_debug_refines:
  "account_debug env d t s = Inr r \<Longrightarrow> r = account env d t s"
  by (auto simp: account_debug_def account_def Let_def split: if_splits)

lemma account_debug_alt:
  "account_debug env d t s =
     (if \<not> (0 \<le> sint d \<or> 0 \<le> sint (asc_current s + d))
      then Inl (assert_failed ''Negative overflow'')
      else if asc_peak s < asc_current s + d \<and> \<not> 0 < sint d
      then Inl (assert_failed ''Sanity'')
      else Inr (account env d t s))"
  by (simp add: account_debug_def account_def Let_def)

section \<open>Sequences of calls\<close>

lemma run_calls_debug_refines:
  "run_calls_debug cs s = Inr s' \<Longrightarrow> s' = run_calls cs s"
proof (induction cs arbitrary: s)
  case Nil
  then show ?case by (simp add: run_calls_def)
next
  case (Cons c cs)
  then show ?case
    by (cases c) (auto simp: run_calls_def split: sum.splits dest: account_debug_refines)
qed

lemma run_calls_Nil [simp]: "run_calls [] s = s"
  by (simp add: run_calls_def)

lemma run_calls_Cons [simp]: "run_calls (c # cs) s = run_calls cs (apply_call s c)"
  by (simp add: run_calls_def)

lemma run_calls_append: "run_calls (cs @ cs') s = run_calls cs' (run_calls cs s)"
  by (simp add: run_calls_def)

lemma peak_since_start_uint:
  "uint (peak_since_start s) = max 0 (uint (asc_peak s) - uint (asc_start s))"
  by (auto simp: peak_since_start_def word_less_def word_le_def uint_sub_if' not_less)

lemma peak_since_start_mono:
  "asc_start s' = asc_start s \<Longrightarrow> asc_peak s \<le> asc_peak s' \<Longrightarrow>
   peak_since_start s \<le> peak_since_start s'"
  by (simp add: word_le_def peak_since_start_uint)

lemma account_peak_mono: "asc_peak s \<le> asc_peak (snd (account env d t s))"
  by (auto simp: account_peak)

lemma account_pss_mono:
  "peak_since_start s \<le> peak_since_start (snd (account env d t s))"
  by (rule peak_since_start_mono) (simp_all add: account_peak_mono)

lemma run_calls_pss_mono:
  "Start \<notin> set cs \<Longrightarrow> peak_since_start s \<le> peak_since_start (run_calls cs s)"
proof (induction cs arbitrary: s)
  case Nil
  show ?case by simp
next
  case (Cons c cs)
  then obtain env d t where c: "c = Account env d t"
    by (cases c) auto
  have "peak_since_start s \<le> peak_since_start (apply_call s c)"
    by (simp add: c account_pss_mono)
  also have "\<dots> \<le> peak_since_start (run_calls cs (apply_call s c))"
    using Cons by simp
  finally show ?case by simp
qed

lemma account_pss_const:
  "\<not> asc_peak s < asc_current (snd (account env d t s)) \<Longrightarrow>
   peak_since_start (snd (account env d t s)) = peak_since_start s"
  by (simp add: peak_since_start_def account_peak)

lemma apply_call_invariant:
  "asc_current s \<le> asc_peak s \<Longrightarrow> asc_start s \<le> asc_peak s \<Longrightarrow>
   asc_current (apply_call s c) \<le> asc_peak (apply_call s c) \<and>
   asc_start (apply_call s c) \<le> asc_peak (apply_call s c)"
  by (cases c) (auto simp: account_peak)

lemma run_calls_invariant:
  "asc_current s \<le> asc_peak s \<Longrightarrow> asc_start s \<le> asc_peak s \<Longrightarrow>
   asc_current (run_calls cs s) \<le> asc_peak (run_calls cs s) \<and>
   asc_start (run_calls cs s) \<le> asc_peak (run_calls cs s)"
proof (induction cs arbitrary: s)
  case Nil
  then show ?case by simp
next
  case (Cons c cs)
  from apply_call_invariant [OF Cons.prems, of c] show ?case
    by (simp add: Cons.IH)
qed

section \<open>The assertions of the debug build\<close>

lemma word64_of_int_small:
  fixes k :: int
  assumes "0 \<le> k" and "k < 2 ^ 63"
  shows "uint (word_of_int k :: 64 word) = k" and "sint (word_of_int k :: 64 word) = k"
proof -
  show "uint (word_of_int k :: 64 word) = k"
    using assms by (simp add: uint_word_of_int take_bit_eq_mod)
  show "sint (word_of_int k :: 64 word) = k"
    using assms by (simp add: sint_sbintrunc' signed_take_bit_int_eq_self)
qed

lemma word64_add_signed:
  fixes c d :: "64 word"
  assumes "0 \<le> uint c + sint d" and "uint c + sint d < 2 ^ 63"
  shows "uint (c + d) = uint c + sint d" and "sint (c + d) = uint c + sint d"
proof -
  have eq: "c + d = word_of_int (uint c + sint d)"
    by simp
  show "uint (c + d) = uint c + sint d"
    by (simp only: eq word64_of_int_small(1) [OF assms])
  show "sint (c + d) = uint c + sint d"
    by (simp only: eq word64_of_int_small(2) [OF assms])
qed

lemma account_debug_in_range:
  assumes inv: "asc_current s \<le> asc_peak s"
    and lo: "0 \<le> uint (asc_current s) + sint d"
    and hi: "uint (asc_current s) + sint d < 2 ^ 63"
  shows "account_debug env d t s = Inr (account env d t s)"
proof -
  note w = word64_add_signed [OF lo hi]
  have a1: "0 \<le> sint (asc_current s + d)"
    using w lo by simp
  have a2: "0 < sint d" if "asc_peak s < asc_current s + d"
  proof -
    from that inv have "asc_current s < asc_current s + d" by simp
    then have "uint (asc_current s) < uint (asc_current s + d)"
      by (simp add: word_less_def)
    with w show ?thesis by simp
  qed
  show ?thesis
    using a1 a2 by (auto simp: account_debug_alt)
qed

lemma run_calls_debug_in_range:
  assumes "asc_current s \<le> asc_peak s"
    and "prefix_totals_in_range (uint (asc_current s)) (map call_delta cs)"
  shows "run_calls_debug cs s = Inr (run_calls cs s)
         \<and> uint (asc_current (run_calls cs s)) = uint (asc_current s) + sum_list (map call_delta cs)"
  using assms
proof (induction cs arbitrary: s)
  case Nil
  show ?case by simp
next
  case (Cons c cs)
  show ?case
  proof (cases c)
    case Start
    with Cons.prems have "prefix_totals_in_range (uint (asc_current (start s))) (map call_delta cs)"
      by simp
    from Cons.IH [OF _ this] show ?thesis
      by (simp add: Start)
  next
    case (Account env d t)
    from Cons.prems(2) Account have lo: "0 \<le> uint (asc_current s) + sint d"
      and hi: "uint (asc_current s) + sint d < 2 ^ 63"
      and rest: "prefix_totals_in_range (uint (asc_current s) + sint d) (map call_delta cs)"
      by (cases cs; simp)+
    let ?s' = "snd (account env d t s)"
    have cur: "uint (asc_current ?s') = uint (asc_current s) + sint d"
      using word64_add_signed(1) [OF lo hi] by simp
    have inv': "asc_current ?s' \<le> asc_peak ?s'"
      by (auto simp: account_peak)
    have dbg: "account_debug env d t s = Inr (account env d t s)"
      by (rule account_debug_in_range [OF Cons.prems(1) lo hi])
    from Cons.IH [OF inv'] rest cur show ?thesis
      by (simp add: Account dbg)
  qed
qed

lemma prefix_totals_in_range_take:
  "prefix_totals_in_range t ds \<Longrightarrow> prefix_totals_in_range t (take k ds)"
proof (induction ds arbitrary: t k)
  case Nil
  then show ?case by simp
next
  case (Cons d ds)
  then show ?case by (cases k) (auto)
qed

section \<open>Windows without a peak event\<close>

lemma account_live_nodes_peak:
  "asc_peak s < asc_current s + d \<Longrightarrow>
   asc_live_nodes_at_peak (snd (account env d t s)) =
     asc_live_nodes_at_peak (update_c2_node_count env s)"
  by (simp add: account_def reach_peak_def Let_def update_c2_node_count_def split: option.splits)

lemma run_calls_peak_mono:
  "Start \<notin> set cs \<Longrightarrow> asc_peak s \<le> asc_peak (run_calls cs s)"
proof (induction cs arbitrary: s)
  case Nil
  show ?case by simp
next
  case (Cons c cs)
  then obtain env d t where c: "c = Account env d t"
    by (cases c) auto
  have "asc_peak s \<le> asc_peak (apply_call s c)"
    by (simp add: c account_peak_mono)
  also have "\<dots> \<le> asc_peak (run_calls cs (apply_call s c))"
    using Cons by simp
  finally show ?case by simp
qed

lemma run_calls_no_peak:
  "Start \<notin> set cs \<Longrightarrow> asc_peak (run_calls cs s) = asc_peak s \<Longrightarrow>
   asc_na_at_peak (run_calls cs s) = asc_na_at_peak s
   \<and> asc_ra_at_peak (run_calls cs s) = asc_ra_at_peak s
   \<and> asc_live_nodes_at_peak (run_calls cs s) = asc_live_nodes_at_peak s"
proof (induction cs arbitrary: s)
  case Nil
  show ?case by simp
next
  case (Cons c cs)
  then obtain env d t where c: "c = Account env d t"
    by (cases c) auto
  let ?s' = "snd (account env d t s)"
  from Cons.prems have nostart: "Start \<notin> set cs"
    by simp
  have "asc_peak s \<le> asc_peak ?s'"
    by (rule account_peak_mono)
  moreover have "asc_peak ?s' \<le> asc_peak (run_calls cs ?s')"
    by (rule run_calls_peak_mono [OF nostart])
  moreover have fin: "asc_peak (run_calls cs ?s') = asc_peak s"
    using Cons.prems(2) by (simp add: c)
  ultimately have same: "asc_peak ?s' = asc_peak s"
    by simp
  then have nopeak: "\<not> asc_peak s < asc_current s + d"
    by (auto simp: account_peak split: if_splits)
  from Cons.IH [OF nostart, of ?s'] fin same
  have "asc_na_at_peak (run_calls cs ?s') = asc_na_at_peak ?s'
   \<and> asc_ra_at_peak (run_calls cs ?s') = asc_ra_at_peak ?s'
   \<and> asc_live_nodes_at_peak (run_calls cs ?s') = asc_live_nodes_at_peak ?s'"
    by simp
  with nopeak show ?case
    by (simp add: c account_na_at_peak account_ra_at_peak account_live_nodes_no_peak)
qed

section \<open>Claims about the Peak Tracker\<close>

text \<open>
  C1. A fresh tracker, \<open>start()\<close>, then \<open>account(+1000, node)\<close>,
  \<open>account(+500, resource)\<close>, \<open>account(-300, node)\<close>, \<open>account(+200, node)\<close>,
  whatever the thread looks like at each call: the first two calls report a new peak and the
  last two do not, the peak is 1500 from the second call on, \<open>peak_since_start\<close> is 1500,
  and the category values captured at the peak are node = 1000 and resource = 500 although
  the node total has moved to 900 since. The debug build runs the same calls without a
  failed assertion.
\<close>

theorem account_scenario:
  "(let s0 = start ArenaStatCounter_new;
        (rc1, s1) = account e1 1000 tag_node s0;
        (rc2, s2) = account e2 500 tag_ra s1;
        (rc3, s3) = account e3 (- 300) tag_node s2;
        (rc4, s4) = account e4 200 tag_node s3
    in [rc1, rc2, rc3, rc4] = [True, True, False, False]
       \<and> asc_peak s1 = 1000 \<and> asc_peak s2 = 1500 \<and> asc_peak s3 = 1500 \<and> asc_peak s4 = 1500
       \<and> peak_since_start s4 = 1500
       \<and> asc_na_at_peak s4 = 1000 \<and> asc_ra_at_peak s4 = 500
       \<and> asc_na s4 = 900 \<and> asc_ra s4 = 500 \<and> asc_current s4 = 1400
       \<and> run_calls_debug
            [Start, Account e1 1000 tag_node, Account e2 500 tag_ra,
             Account e3 (- 300) tag_node, Account e4 200 tag_node] ArenaStatCounter_new = Inr s4)"
  by (simp add: split_def Let_def account_rc account_peak account_na_at_peak account_ra_at_peak
      peak_since_start_def ArenaStatCounter_new_def account_debug_alt)

text \<open>
  C5. Within one tracking window (\<open>start()\<close>, then \<open>account\<close> calls only),
  \<open>peak_since_start\<close> is the true difference \<open>peak - start\<close> cut off at 0, hence never
  negative; it never decreases from one point of the window to a later one; and an
  \<open>account\<close> call whose updated running total does not exceed the peak leaves it as it is.
\<close>

theorem peak_since_start_monotone:
  assumes "Start \<notin> set cs" and "Start \<notin> set cs'"
  shows "(let w = run_calls cs (start s0); w' = run_calls (cs @ cs') (start s0)
          in uint (peak_since_start w) = max 0 (uint (asc_peak w) - uint (asc_start w))
             \<and> 0 \<le> peak_since_start w
             \<and> peak_since_start w \<le> peak_since_start w'
             \<and> (\<forall>env d t. \<not> asc_peak w < asc_current (snd (account env d t w)) \<longrightarrow>
                   peak_since_start (snd (account env d t w)) = peak_since_start w))"
  using assms(2)
  by (simp add: Let_def run_calls_append run_calls_pss_mono peak_since_start_uint
      account_pss_const del: account_current)

theorem peak_since_start_monotone_witness:
  "Start \<notin> set [Account c1_thread 1000 tag_node]
   \<and> Start \<notin> set [Account c1_thread (- 300) tag_ra]
   \<and> peak_since_start (run_calls [Account c1_thread 1000 tag_node] (start ArenaStatCounter_new))
         = 1000
   \<and> peak_since_start
         (run_calls ([Account c1_thread 1000 tag_node] @ [Account c1_thread (- 300) tag_ra])
            (start ArenaStatCounter_new)) = 1000
   \<and> \<not> asc_peak (run_calls [Account c1_thread 1000 tag_node] (start ArenaStatCounter_new))
         < asc_current (snd (account c1_thread (- 300) tag_ra
             (run_calls [Account c1_thread 1000 tag_node] (start ArenaStatCounter_new))))"
  using peak_since_start_monotone [of "[Account c1_thread 1000 tag_node]"
      "[Account c1_thread (- 300) tag_ra]" ArenaStatCounter_new]
  by (simp add: Let_def peak_since_start_def account_peak ArenaStatCounter_new_def)

text \<open>
  C6. After any interleaving of \<open>start()\<close> and \<open>account\<close> calls on a freshly
  constructed tracker, \<open>peak \<ge> current\<close> and \<open>peak \<ge> start\<close> (as unsigned values). Every
  prefix of an interleaving is an interleaving, so this is the state after every operation;
  no condition on the deltas is needed.
\<close>

theorem tracker_invariants:
  "asc_current (run_calls cs ArenaStatCounter_new) \<le> asc_peak (run_calls cs ArenaStatCounter_new)
   \<and> asc_start (run_calls cs ArenaStatCounter_new) \<le> asc_peak (run_calls cs ArenaStatCounter_new)"
  by (rule run_calls_invariant) (simp_all add: ArenaStatCounter_new_def)

text \<open>
  Where every prefix total of a window stays below \<open>2^63\<close>, and is never negative, the
  debug build runs all the calls without a failed assertion (neither the underflow check
  nor the sanity check of the peak branch), and the unsigned addition never wraps: after
  every prefix \<open>current\<close> is the integer sum.
\<close>

theorem account_checks_hold:
  assumes "Start \<notin> set cs"
    and "prefix_totals_in_range (uint (asc_current s0)) (map call_delta cs)"
  shows "run_calls_debug cs (start s0) = Inr (run_calls cs (start s0))
         \<and> (\<forall>k. uint (asc_current (run_calls (take k cs) (start s0)))
                  = uint (asc_current s0) + sum_list (map call_delta (take k cs)))"
proof -
  have inv: "asc_current (start s0) \<le> asc_peak (start s0)"
    by simp
  have rng: "prefix_totals_in_range (uint (asc_current (start s0))) (map call_delta (take k cs))" for k
    using prefix_totals_in_range_take [OF assms(2), of k] by (simp add: take_map)
  from rng [of "length cs"] run_calls_debug_in_range [OF inv] rng show ?thesis
    by simp
qed

theorem account_checks_hold_witness:
  "Start \<notin> set [Account c1_thread 1000 tag_node, Account c1_thread (- 300) tag_node]
   \<and> prefix_totals_in_range (uint (asc_current ArenaStatCounter_new))
        (map call_delta [Account c1_thread 1000 tag_node, Account c1_thread (- 300) tag_node])
   \<and> run_calls_debug [Account c1_thread 1000 tag_node, Account c1_thread (- 300) tag_node]
         (start ArenaStatCounter_new)
       = Inr (run_calls [Account c1_thread 1000 tag_node, Account c1_thread (- 300) tag_node]
               (start ArenaStatCounter_new))
   \<and> uint (asc_current
         (run_calls [Account c1_thread 1000 tag_node, Account c1_thread (- 300) tag_node]
            (start ArenaStatCounter_new))) = 700"
  using account_checks_hold [of "[Account c1_thread 1000 tag_node, Account c1_thread (- 300) tag_node]"
      ArenaStatCounter_new]
  by (simp add: ArenaStatCounter_new_def)


text \<open>
  C10. \<open>start()\<close> writes \<open>_start\<close> and \<open>_peak\<close>, both with the running total, and nothing
  else: the running total, the two category totals, the two category values captured at the
  last peak and the node count captured there are as before. In the window that follows
  they stay so for as long as no \<open>account\<close> call has raised the peak above its value at
  \<open>start()\<close>, that is until the next peak event.
\<close>

theorem start_frame:
  "start s = s\<lparr>asc_start := asc_current s, asc_peak := asc_current s\<rparr>
   \<and> asc_start (start s) = asc_current s \<and> asc_peak (start s) = asc_current s
   \<and> asc_current (start s) = asc_current s
   \<and> asc_na (start s) = asc_na s \<and> asc_ra (start s) = asc_ra s
   \<and> asc_na_at_peak (start s) = asc_na_at_peak s
   \<and> asc_ra_at_peak (start s) = asc_ra_at_peak s
   \<and> asc_live_nodes_at_peak (start s) = asc_live_nodes_at_peak s
   \<and> (Start \<notin> set cs \<and> asc_peak (run_calls cs (start s)) = asc_current s \<longrightarrow>
        asc_na_at_peak (run_calls cs (start s)) = asc_na_at_peak s
        \<and> asc_ra_at_peak (run_calls cs (start s)) = asc_ra_at_peak s
        \<and> asc_live_nodes_at_peak (run_calls cs (start s)) = asc_live_nodes_at_peak s)"
  using run_calls_no_peak [of cs "start s"]
  by (simp add: start_def Let_def)

theorem start_frame_witness:
  "Start \<notin> set [Account c1_thread 0 tag_ra]
   \<and> asc_peak (run_calls [Account c1_thread 0 tag_ra]
         (start (run_calls [Account (c2_thread 42) 1000 tag_node,
                            Account (c2_thread 50) (- 1000) tag_node] ArenaStatCounter_new))) = 0
   \<and> asc_na_at_peak (run_calls [Account c1_thread 0 tag_ra]
         (start (run_calls [Account (c2_thread 42) 1000 tag_node,
                            Account (c2_thread 50) (- 1000) tag_node] ArenaStatCounter_new))) = 1000
   \<and> asc_live_nodes_at_peak (run_calls [Account c1_thread 0 tag_ra]
         (start (run_calls [Account (c2_thread 42) 1000 tag_node,
                            Account (c2_thread 50) (- 1000) tag_node] ArenaStatCounter_new))) = 42"
  using start_frame [of "run_calls [Account (c2_thread 42) 1000 tag_node,
                            Account (c2_thread 50) (- 1000) tag_node] ArenaStatCounter_new"
      "[Account c1_thread 0 tag_ra]"]
  by (simp add: ArenaStatCounter_new_def account_peak account_na_at_peak account_ra_at_peak
      account_live_nodes_peak account_live_nodes_no_peak update_c2_node_count_def
      c2_thread_def example_task_def)

section \<open>The registry: one record per identity\<close>

lemma records_of_put_other:
  "k \<noteq> fmn \<Longrightarrow> records_of (put k v tbl) fmn = records_of tbl fmn"
  by (induction tbl) (auto simp: records_of_def)

lemma records_of_put_absent:
  "records_of tbl fmn = [] \<Longrightarrow> records_of (put fmn v tbl) fmn = [v]"
  by (induction tbl) (auto simp: records_of_def split: if_splits)

lemma records_of_put_present:
  "records_of tbl fmn = [e] \<Longrightarrow> records_of (put fmn v tbl) fmn = [v]"
proof (induction tbl)
  case Nil
  then show ?case by (simp add: records_of_def)
next
  case (Cons p tbl)
  obtain k' v' where p: "p = (k', v')" by (cases p)
  show ?case
  proof (cases "k' = fmn")
    case True
    with Cons.prems p show ?thesis by (simp add: records_of_def)
  next
    case False
    with Cons p show ?thesis by (simp add: records_of_def)
  qed
qed

lemma get_records_of_Nil: "records_of tbl fmn = [] \<Longrightarrow> get tbl fmn = None"
  by (induction tbl) (auto simp: records_of_def get_def split: if_splits)

lemma get_records_of_single: "records_of tbl fmn = [e] \<Longrightarrow> get tbl fmn = Some e"
  by (induction tbl) (auto simp: records_of_def get_def split: if_splits)

lemma get_None_records_of: "get tbl fmn = None \<Longrightarrow> records_of tbl fmn = []"
  by (induction tbl) (auto simp: records_of_def get_def split: if_splits)

lemmas setter_defs = set_current_time_def set_current_thread_def set_comptype_def
  inc_recompilation_def set_total_def set_na_at_peak_def set_ra_at_peak_def
  set_live_nodes_at_peak_def

lemma add_one_other:
  "a_fmn a \<noteq> fmn \<Longrightarrow> records_of (add_one a tbl) fmn = records_of tbl fmn"
  by (simp add: add_one_def add_def Let_def records_of_put_other split: option.splits)

lemma add_one_absent:
  assumes "records_of tbl (a_fmn a) = []"
  shows "records_of (add_one a tbl) (a_fmn a) = [stamp a (MemStatEntry_new (a_fmn a))]"
proof -
  have g: "get tbl (a_fmn a) = None"
    by (rule get_records_of_Nil [OF assms])
  have "records_of (put (a_fmn a) (MemStatEntry_new (a_fmn a)) tbl) (a_fmn a)
          = [MemStatEntry_new (a_fmn a)]"
    by (rule records_of_put_absent [OF assms])
  then show ?thesis
    by (simp add: add_one_def add_def Let_def g records_of_put_present stamp_def setter_defs)
qed

lemma add_one_present:
  assumes "records_of tbl (a_fmn a) = [e]"
  shows "records_of (add_one a tbl) (a_fmn a) = [stamp a e]"
proof -
  have g: "get tbl (a_fmn a) = Some e"
    by (rule get_records_of_single [OF assms])
  show ?thesis
    by (simp add: add_one_def add_def Let_def g records_of_put_present [OF assms] stamp_def
        setter_defs)
qed

lemma add_one_records:
  assumes "length (records_of tbl fmn) \<le> 1"
  shows "records_of (add_one a tbl) fmn =
           (if a_fmn a = fmn then [stamp a (entry_before tbl fmn)] else records_of tbl fmn)"
proof (cases "a_fmn a = fmn")
  case False
  then show ?thesis by (simp add: add_one_other)
next
  case True
  show ?thesis
  proof (cases "records_of tbl fmn")
    case Nil
    with True add_one_absent [of tbl a] show ?thesis
      by (simp add: entry_before_def)
  next
    case (Cons e es)
    with assms have "records_of tbl fmn = [e]" by simp
    with True add_one_present [of tbl a e] show ?thesis
      by (simp add: entry_before_def)
  qed
qed

lemma add_all_records:
  assumes "length (records_of tbl fmn) \<le> 1"
  shows "records_of (add_all cs tbl) fmn =
           (if filter (\<lambda>a. a_fmn a = fmn) cs = [] then records_of tbl fmn
            else [fold stamp (filter (\<lambda>a. a_fmn a = fmn) cs) (entry_before tbl fmn)])"
  using assms
proof (induction cs arbitrary: tbl)
  case Nil
  show ?case by (simp add: add_all_def)
next
  case (Cons a cs)
  have step: "records_of (add_one a tbl) fmn =
           (if a_fmn a = fmn then [stamp a (entry_before tbl fmn)] else records_of tbl fmn)"
    by (rule add_one_records [OF Cons.prems])
  then have len: "length (records_of (add_one a tbl) fmn) \<le> 1"
    using Cons.prems by simp
  have unfold: "add_all (a # cs) tbl = add_all cs (add_one a tbl)"
    by (simp add: add_all_def)
  show ?case
  proof (cases "a_fmn a = fmn")
    case True
    with step have "entry_before (add_one a tbl) fmn = stamp a (entry_before tbl fmn)"
      by (simp add: entry_before_def)
    with Cons.IH [OF len] True step show ?thesis
      by (simp add: unfold)
  next
    case False
    with step have "entry_before (add_one a tbl) fmn = entry_before tbl fmn"
      by (simp add: entry_before_def)
    with Cons.IH [OF len] False step show ?thesis
      by (simp add: unfold)
  qed
qed

lemma int32_of_int_small:
  fixes k :: int
  assumes "0 \<le> k" and "k < 2 ^ 31"
  shows "sint (word_of_int k :: 32 word) = k"
  using assms by (simp add: sint_sbintrunc' signed_take_bit_int_eq_self)

lemma int32_of_nat_small:
  fixes n :: nat
  assumes "n < 2 ^ 31"
  shows "sint (of_nat n :: 32 word) = int n"
proof -
  have "int n < 2 ^ 31"
    using assms by simp
  then have "sint (word_of_int (int n) :: 32 word) = int n"
    by (intro int32_of_int_small) simp_all
  then show ?thesis
    by (simp only: of_int_of_nat_eq)
qed

lemma fold_stamp_fields:
  "as \<noteq> [] \<Longrightarrow>
   mse_method (fold stamp as e) = mse_method e
   \<and> mse_num_recomp (fold stamp as e) = mse_num_recomp e + of_nat (length as)
   \<and> mse_total (fold stamp as e) = a_total (last as)
   \<and> mse_na_at_peak (fold stamp as e) = a_na_at_peak (last as)
   \<and> mse_ra_at_peak (fold stamp as e) = a_ra_at_peak (last as)
   \<and> mse_live_nodes_at_peak (fold stamp as e) = a_live_nodes_at_peak (last as)
   \<and> mse_comptype (fold stamp as e) = a_comptype (last as)
   \<and> mse_time (fold stamp as e) = os_elapsedTime (a_env (last as))
   \<and> mse_thread (fold stamp as e) = Thread_current (a_env (last as))"
proof (induction as arbitrary: e)
  case Nil
  then show ?case by simp
next
  case (Cons a as)
  show ?case
  proof (cases "as = []")
    case True
    then show ?thesis by (simp add: stamp_def)
  next
    case False
    from Cons.IH [OF False, of "stamp a e"] False show ?thesis
      by (simp add: stamp_def)
  qed
qed

text \<open>
  C2. Take a table that has no record for an identity and any sequence of \<open>add\<close> calls in
  which that identity occurs \<open>N \<ge> 1\<close> times (calls for other identities may come in
  between). Afterwards the table holds exactly one entry for the identity. Its total, its two
  category values, its node count and its compiler type are the arguments of the last of
  the \<open>N\<close> calls, as are the time and thread stamps: overwritten, not accumulated. Its
  recompilation count is \<open>N\<close> converted to \<open>int\<close>; it reads as \<open>N\<close> for every \<open>N\<close> that an
  \<open>int\<close> holds, that is for \<open>N < 2^31\<close>.
\<close>

theorem add_same_identity:
  assumes "filter (\<lambda>a. a_fmn a = fmn) cs \<noteq> []" and "get tbl fmn = None"
  shows "\<exists>e. records_of (add_all cs tbl) fmn = [e]
           \<and> get (add_all cs tbl) fmn = Some e
           \<and> mse_method e = fmn
           \<and> mse_num_recomp e = of_nat (length (filter (\<lambda>a. a_fmn a = fmn) cs))
           \<and> (length (filter (\<lambda>a. a_fmn a = fmn) cs) < 2 ^ 31 \<longrightarrow>
                sint (mse_num_recomp e) = int (length (filter (\<lambda>a. a_fmn a = fmn) cs)))
           \<and> mse_total e = a_total (last (filter (\<lambda>a. a_fmn a = fmn) cs))
           \<and> mse_na_at_peak e = a_na_at_peak (last (filter (\<lambda>a. a_fmn a = fmn) cs))
           \<and> mse_ra_at_peak e = a_ra_at_peak (last (filter (\<lambda>a. a_fmn a = fmn) cs))
           \<and> mse_live_nodes_at_peak e
               = a_live_nodes_at_peak (last (filter (\<lambda>a. a_fmn a = fmn) cs))
           \<and> mse_comptype e = a_comptype (last (filter (\<lambda>a. a_fmn a = fmn) cs))
           \<and> mse_time e = os_elapsedTime (a_env (last (filter (\<lambda>a. a_fmn a = fmn) cs)))
           \<and> mse_thread e = Thread_current (a_env (last (filter (\<lambda>a. a_fmn a = fmn) cs)))"
proof -
  let ?mine = "filter (\<lambda>a. a_fmn a = fmn) cs"
  have none: "records_of tbl fmn = []"
    by (rule get_None_records_of [OF assms(2)])
  have before: "entry_before tbl fmn = MemStatEntry_new fmn"
    by (simp add: entry_before_def none)
  let ?e = "fold stamp ?mine (MemStatEntry_new fmn)"
  have recs: "records_of (add_all cs tbl) fmn = [?e]"
    using add_all_records [of tbl fmn cs] assms(1) by (simp add: none before)
  have g: "get (add_all cs tbl) fmn = Some ?e"
    by (rule get_records_of_single [OF recs])
  have fields: "mse_method ?e = fmn
    \<and> mse_num_recomp ?e = of_nat (length ?mine)
    \<and> mse_total ?e = a_total (last ?mine)
    \<and> mse_na_at_peak ?e = a_na_at_peak (last ?mine)
    \<and> mse_ra_at_peak ?e = a_ra_at_peak (last ?mine)
    \<and> mse_live_nodes_at_peak ?e = a_live_nodes_at_peak (last ?mine)
    \<and> mse_comptype ?e = a_comptype (last ?mine)
    \<and> mse_time ?e = os_elapsedTime (a_env (last ?mine))
    \<and> mse_thread ?e = Thread_current (a_env (last ?mine))"
    using fold_stamp_fields [OF assms(1), of "MemStatEntry_new fmn"]
    by (simp add: MemStatEntry_new_def)
  have count: "sint (mse_num_recomp ?e) = int (length ?mine)" if "length ?mine < 2 ^ 31"
    using that fields by (simp add: int32_of_nat_small)
  from recs g fields count show ?thesis
    by blast
qed

theorem add_same_identity_witness:
  "filter (\<lambda>a. a_fmn a = example_method) [upsert example_method 1500, upsert other_method 70,
       upsert example_method 900] \<noteq> []
   \<and> get [] example_method = None
   \<and> length (filter (\<lambda>a. a_fmn a = example_method) [upsert example_method 1500,
         upsert other_method 70, upsert example_method 900]) < 2 ^ 31
   \<and> (\<exists>e. records_of (add_all [upsert example_method 1500, upsert other_method 70,
                 upsert example_method 900] []) example_method = [e]
          \<and> sint (mse_num_recomp e) = 2 \<and> mse_total e = 900)"
  using add_same_identity [of example_method
      "[upsert example_method 1500, upsert other_method 70, upsert example_method 900]" "[]"]
  by (auto simp: upsert_def get_def example_method_def other_method_def)

section \<open>The flat array\<close>

lemma fold_do_f:
  "length tbl \<le> r \<Longrightarrow>
   fold (\<lambda>(k, e). do_f m k e) tbl (map Some pre @ replicate r None, length pre)
     = (map Some (pre @ qualifying tbl m) @ replicate (r - length (qualifying tbl m)) None,
        length pre + length (qualifying tbl m))"
proof (induction tbl arbitrary: pre r)
  case Nil
  show ?case by (simp add: qualifying_def)
next
  case (Cons p tbl)
  obtain k e where p: "p = (k, e)" by (cases p)
  from Cons.prems obtain r' where r: "r = Suc r'" and len: "length tbl \<le> r'"
    by (cases r) auto
  show ?case
  proof (cases "m \<le> total e")
    case True
    have upd: "(map Some pre @ replicate r None)[length pre := Some e]
                 = map Some (pre @ [e]) @ replicate r' None"
      by (simp add: r list_update_append)
    have "length tbl \<le> r'" by (rule len)
    from Cons.IH [OF this, of "pre @ [e]"] True upd show ?thesis
      by (simp add: p do_f_def qualifying_def r)
  next
    case False
    have q: "length (qualifying tbl m) \<le> length tbl"
      by (simp add: qualifying_def)
    from Cons.prems have "length tbl \<le> r" by simp
    from Cons.IH [OF this, of pre] False show ?thesis
      by (simp add: p do_f_def qualifying_def)
  qed
qed

lemma calc_flat_array_eq:
  "calc_flat_array tbl m =
     (map Some (qualifying tbl m) @ replicate (length tbl - length (qualifying tbl m)) None,
      length (qualifying tbl m))"
  using fold_do_f [of tbl "length tbl" m "[]"]
  by (simp add: calc_flat_array_def iterate_all_def number_of_entries_def Let_def)

lemma calc_flat_array_take:
  "take (snd (calc_flat_array tbl m)) (fst (calc_flat_array tbl m)) = map Some (qualifying tbl m)"
  by (simp add: calc_flat_array_eq)

lemma put_keys: "fst ` set (put k v tbl) = insert k (fst ` set tbl)"
  by (induction k v tbl rule: put.induct) auto

lemma put_map_fst:
  "map fst (put k v tbl) = (if k \<in> fst ` set tbl then map fst tbl else map fst tbl @ [k])"
  by (induction k v tbl rule: put.induct) (auto simp: rev_image_eqI)

lemma put_distinct: "distinct (map fst tbl) \<Longrightarrow> distinct (map fst (put k v tbl))"
  by (simp add: put_map_fst)

lemma put_methods:
  "\<forall>(k', e) \<in> set tbl. mse_method e = k' \<Longrightarrow> mse_method v = k \<Longrightarrow>
   \<forall>(k', e) \<in> set (put k v tbl). mse_method e = k'"
  by (induction k v tbl rule: put.induct) auto

lemma get_Some_method:
  "table_ok tbl \<Longrightarrow> get tbl k = Some e \<Longrightarrow> mse_method e = k"
  by (auto simp: table_ok_def get_def dest!: map_of_SomeD)

lemma add_one_ok:
  assumes "table_ok tbl"
  shows "table_ok (add_one a tbl) \<and> fst ` set (add_one a tbl) = insert (a_fmn a) (fst ` set tbl)"
proof (cases "get tbl (a_fmn a)")
  case None
  let ?t1 = "put (a_fmn a) (MemStatEntry_new (a_fmn a)) tbl"
  have ok1: "table_ok ?t1"
    using assms put_methods [of tbl "MemStatEntry_new (a_fmn a)" "a_fmn a"]
    by (simp add: table_ok_def put_distinct MemStatEntry_new_def)
  have "table_ok (put (a_fmn a) (stamp a (MemStatEntry_new (a_fmn a))) ?t1)"
    using ok1 put_methods [of ?t1 "stamp a (MemStatEntry_new (a_fmn a))" "a_fmn a"]
    by (simp add: table_ok_def put_distinct MemStatEntry_new_def stamp_def)
  then show ?thesis
    by (simp add: add_one_def add_def Let_def None setter_defs stamp_def put_keys)
next
  case (Some e)
  have m: "mse_method e = a_fmn a"
    by (rule get_Some_method [OF assms Some])
  have "a_fmn a \<in> fst ` set tbl"
    using Some by (auto simp: get_def dest!: map_of_SomeD intro: rev_image_eqI)
  moreover have "table_ok (put (a_fmn a) (stamp a e) tbl)"
    using assms put_methods [of tbl "stamp a e" "a_fmn a"] m
    by (simp add: table_ok_def put_distinct stamp_def)
  ultimately show ?thesis
    by (auto simp: add_one_def add_def Let_def Some setter_defs stamp_def put_keys)
qed

lemma add_all_ok:
  "table_ok tbl \<Longrightarrow>
   table_ok (add_all cs tbl) \<and> fst ` set (add_all cs tbl) = a_fmn ` set cs \<union> fst ` set tbl"
proof (induction cs arbitrary: tbl)
  case Nil
  then show ?case by (simp add: add_all_def)
next
  case (Cons a cs)
  from add_one_ok [OF Cons.prems, of a] Cons.IH [of "add_one a tbl"] show ?case
    by (auto simp: add_all_def)
qed

lemma table_ok_methods: "table_ok tbl \<Longrightarrow> map (mse_method \<circ> snd) tbl = map fst tbl"
  by (induction tbl) (auto simp: table_ok_def)

lemma qualifying_zero: "qualifying tbl 0 = map snd tbl"
  by (simp add: qualifying_def)

text \<open>
  C4. \<open>calc_flat_array\<close> fills the first \<open>num\<close> slots of an array of
  \<open>number_of_entries\<close> slots with exactly the entries of the table whose total is at least
  \<open>min_size\<close>, each once and in iteration order: every such entry is there and no other.
  For a table built by any sequence of \<open>add\<close> calls from the empty one and
  \<open>min_size = 0\<close>, \<open>num\<close> is the number of entries, which is the number of distinct
  identities among the calls, and the method names of the returned entries are those
  identities, none of them twice.
\<close>

theorem calc_flat_array_exact:
  "(case calc_flat_array tbl min_size of (flat, num) \<Rightarrow>
      length flat = number_of_entries tbl \<and> num \<le> number_of_entries tbl
      \<and> take num flat = map Some (filter (\<lambda>e. min_size \<le> total e) (map snd tbl))
      \<and> set (take num flat) = Some ` {e \<in> snd ` set tbl. min_size \<le> total e})
   \<and> (case calc_flat_array (add_all cs []) 0 of (flat, num) \<Rightarrow>
      num = number_of_entries (add_all cs [])
      \<and> num = card (a_fmn ` set cs)
      \<and> distinct (map (mse_method \<circ> the) (take num flat))
      \<and> set (map (mse_method \<circ> the) (take num flat)) = a_fmn ` set cs)"
proof -
  have q: "length (qualifying tbl min_size) \<le> length tbl" for tbl
    by (simp add: qualifying_def)
  have first: "(case calc_flat_array tbl min_size of (flat, num) \<Rightarrow>
      length flat = number_of_entries tbl \<and> num \<le> number_of_entries tbl
      \<and> take num flat = map Some (filter (\<lambda>e. min_size \<le> total e) (map snd tbl))
      \<and> set (take num flat) = Some ` {e \<in> snd ` set tbl. min_size \<le> total e})"
    using q [of tbl] by (auto simp: calc_flat_array_eq number_of_entries_def qualifying_def)
  let ?t = "add_all cs []"
  have ok: "table_ok ?t" and keys: "fst ` set ?t = a_fmn ` set cs"
    using add_all_ok [of "[]" cs] by (simp_all add: table_ok_def)
  have dist: "distinct (map fst ?t)"
    using ok by (simp add: table_ok_def)
  have meth: "map (mse_method \<circ> snd) ?t = map fst ?t"
    by (rule table_ok_methods [OF ok])
  have "card (a_fmn ` set cs) = card (set (map fst ?t))"
    using keys by simp
  also have "\<dots> = length ?t"
    using distinct_card [OF dist] by simp
  finally have card: "card (a_fmn ` set cs) = length ?t" .
  have cfa: "calc_flat_array ?t 0 = (map Some (map snd ?t), length ?t)"
    by (simp add: calc_flat_array_eq qualifying_zero)
  have "map (mse_method \<circ> the) (take (length ?t) (map Some (map snd ?t)))
          = map (mse_method \<circ> snd) ?t"
    by (simp add: comp_def)
  then have nm: "map (mse_method \<circ> the) (take (length ?t) (map Some (map snd ?t))) = map fst ?t"
    by (simp only: meth)
  have second: "(case calc_flat_array ?t 0 of (flat, num) \<Rightarrow>
      num = number_of_entries ?t
      \<and> num = card (a_fmn ` set cs)
      \<and> distinct (map (mse_method \<circ> the) (take num flat))
      \<and> set (map (mse_method \<circ> the) (take num flat)) = a_fmn ` set cs)"
    unfolding cfa prod.case nm
    using dist keys card by (simp add: number_of_entries_def)
  from first second show ?thesis by simp
qed

section \<open>The report\<close>

lemma set_qsort [simp]: "set (qsort c xs) = set xs"
  by (induction c xs rule: qsort.induct) auto

lemma mset_qsort [simp]: "mset (qsort c xs) = mset xs"
  by (induction c xs rule: qsort.induct) simp_all

lemma length_qsort [simp]: "length (qsort c xs) = length xs"
  by (induction c xs rule: qsort.induct) (simp_all add: sum_length_filter_compl)

lemma diff_entries_by_size_neg:
  "diff_entries_by_size x p < 0 \<longleftrightarrow> total (the p) < total (the x)"
  by (simp add: diff_entries_by_size_def compare_by_size_def total_def Let_def)

lemma sorted_qsort:
  "sorted_wrt (\<lambda>a b. total (the b) \<le> total (the a)) (qsort diff_entries_by_size xs)"
proof (induction diff_entries_by_size xs rule: qsort.induct)
  case 1
  show ?case by simp
next
  case (2 p xs)
  then show ?case
    by (auto simp: sorted_wrt_append diff_entries_by_size_neg not_less intro: less_imp_le)
qed

lemma rows_of_append [simp]: "rows_of (xs @ ys) = rows_of xs @ rows_of ys"
  by (induction xs rule: rows_of.induct) simp_all

lemma rows_of_legend [simp]: "rows_of print_legend = []"
  by (simp add: print_legend_def)

lemma rows_of_header [simp]: "rows_of print_header = []"
  by (simp add: print_header_def)

lemma rows_of_EntryRows [simp]: "rows_of (map (\<lambda>e. EntryRow e h) es) = es"
  by (induction es) simp_all

lemma print_loop:
  "n \<le> length xs \<Longrightarrow>
   concat (map (\<lambda>i. print_on (the (xs ! i)) h) [0..<n]) = map (\<lambda>e. EntryRow e h) (map the (take n xs))"
proof (induction n)
  case 0
  show ?case by simp
next
  case (Suc n)
  then show ?case
    by (simp add: take_Suc_conv_app_nth print_on_def)
qed

lemma print_all_by_size_enabled:
  assumes "enabled g" and "the_table g = Some tbl"
  shows "print_all_by_size g h m =
     [Text ''Compilation memory statistics'', Text ''''] @ print_legend @ [Text ''''] @
     (if m > 0 then [Text ('' (cutoff: '' @ show_nat (unat m) @ '' bytes)'')] else []) @
     [Text ''''] @ print_header @
     (if m > 0
      then [Text (''('' @ show_int (int (length (qualifying tbl m))) @ ''/''
                  @ show_int (int (length tbl)) @ '')'')]
      else []) @
     (if qualifying tbl m = [] then [Text ''No entries.'']
      else map (\<lambda>e. EntryRow e h) (sorted_snapshot tbl m))"
proof -
  let ?q = "qualifying tbl m"
  let ?flat = "map Some ?q @ replicate (length tbl - length ?q) None"
  have srt: "take (length ?q) (QuickSort_sort ?flat (length ?q) diff_entries_by_size)
               = qsort diff_entries_by_size (map Some ?q)"
    by (simp add: QuickSort_sort_def)
  have len: "length ?q \<le> length (QuickSort_sort ?flat (length ?q) diff_entries_by_size)"
    by (simp add: QuickSort_sort_def)
  have loop: "concat (map (\<lambda>i. print_on
                    (the (QuickSort_sort ?flat (length ?q) diff_entries_by_size ! i)) h)
                  [0..<length ?q])
              = map (\<lambda>e. EntryRow e h) (sorted_snapshot tbl m)"
    by (simp only: print_loop [OF len] srt sorted_snapshot_def)
  show ?thesis
    using assms
    by (simp add: print_all_by_size_def calc_flat_array_eq Let_def number_of_entries_def loop
        del: map_map)
qed

lemma sorted_snapshot_sorted:
  "sorted_wrt (\<lambda>a b. total b \<le> total a) (sorted_snapshot tbl m)"
  using sorted_qsort [of "map Some (qualifying tbl m)"]
  by (simp add: sorted_snapshot_def sorted_wrt_map)

lemma sorted_snapshot_mset: "mset (sorted_snapshot tbl m) = mset (qualifying tbl m)"
proof -
  have "mset (sorted_snapshot tbl m) = image_mset the (mset (qsort diff_entries_by_size (map Some (qualifying tbl m))))"
    by (simp add: sorted_snapshot_def)
  also have "\<dots> = image_mset the (mset (map Some (qualifying tbl m)))"
    by (simp only: mset_qsort)
  also have "\<dots> = mset (qualifying tbl m)"
    by (simp add: multiset.map_comp comp_def)
  finally show ?thesis .
qed

lemma rows_of_print_all_by_size:
  "rows_of (print_all_by_size g h m) =
     (if enabled g then (case the_table g of None \<Rightarrow> [] | Some tbl \<Rightarrow> sorted_snapshot tbl m)
      else [])"
proof (cases "enabled g")
  case False
  then show ?thesis by (simp add: print_all_by_size_def)
next
  case en: True
  show ?thesis
  proof (cases "the_table g")
    case None
    with en show ?thesis by (simp add: print_all_by_size_def)
  next
    case (Some tbl)
    have "qualifying tbl m = [] \<Longrightarrow> sorted_snapshot tbl m = []"
      by (simp add: sorted_snapshot_def)
    then show ?thesis
      using en Some by (auto simp: print_all_by_size_enabled [OF en Some])
  qed
qed

lemma two_element_mset:
  fixes a b :: "'a"
  assumes "mset xs = {#a, b#}"
  shows "xs = [a, b] \<or> xs = [b, a]"
proof -
  have "size (mset xs) = size {#a, b#}"
    by (simp only: assms)
  then have "length xs = 2"
    by simp
  then obtain x y where xs: "xs = [x, y]"
    by (auto simp: length_Suc_conv numeral_2_eq_2)
  with assms show ?thesis
    by (auto simp: add_eq_conv_ex)
qed

lemma show_small: "show_int 2 = ''2''" "show_int 3 = ''3''" "show_nat 2000 = ''2000''"
  by (simp_all add: show_int_def show_nat.simps)

lemma totals_qualifying:
  "mset (map total (qualifying tbl m)) = filter_mset (\<lambda>t. m \<le> t) (mset (map (\<lambda>p. total (snd p)) tbl))"
proof -
  have "map total (qualifying tbl m) = filter (\<lambda>t. m \<le> t) (map (\<lambda>p. total (snd p)) tbl)"
    by (simp add: qualifying_def filter_map comp_def)
  then show ?thesis by (simp only: mset_filter)
qed

lemma scenario_snapshot:
  assumes "mset (map (\<lambda>p. total (snd p)) tbl) = {#5000, 1000, 3000#}"
  shows "\<exists>e1 e2. sorted_snapshot tbl 2000 = [e1, e2] \<and> total e1 = 5000 \<and> total e2 = 3000
           \<and> e1 \<in> snd ` set tbl \<and> e2 \<in> snd ` set tbl
           \<and> length (qualifying tbl 2000) = 2 \<and> length tbl = 3"
proof -
  have "size (mset (map (\<lambda>p. total (snd p)) tbl)) = size {#5000 :: size_t, 1000, 3000#}"
    by (simp only: assms)
  then have len: "length tbl = 3"
    by simp
  have q: "mset (map total (qualifying tbl 2000)) = {#5000, 3000#}"
    unfolding totals_qualifying assms by simp
  have "size (mset (map total (qualifying tbl 2000))) = size {#5000 :: size_t, 3000#}"
    by (simp only: q)
  then have lenq: "length (qualifying tbl 2000) = 2"
    by simp
  have "mset (map total (sorted_snapshot tbl 2000)) = image_mset total (mset (qualifying tbl 2000))"
    by (simp add: sorted_snapshot_mset)
  then have "mset (map total (sorted_snapshot tbl 2000)) = {#5000, 3000#}"
    using q by simp
  then have cases: "map total (sorted_snapshot tbl 2000) = [5000, 3000]
                  \<or> map total (sorted_snapshot tbl 2000) = [3000, 5000]"
    by (rule two_element_mset)
  have "sorted_wrt (\<lambda>a b. b \<le> a) (map total (sorted_snapshot tbl 2000))"
    using sorted_snapshot_sorted [of tbl 2000] by (simp add: sorted_wrt_map)
  with cases have tot: "map total (sorted_snapshot tbl 2000) = [5000, 3000]"
    by auto
  then obtain e1 e2 where s: "sorted_snapshot tbl 2000 = [e1, e2]"
    and t: "total e1 = 5000" "total e2 = 3000"
    by (auto simp: map_eq_Cons_conv)
  have "set (sorted_snapshot tbl 2000) = set (qualifying tbl 2000)"
    using arg_cong [OF sorted_snapshot_mset [of tbl 2000], of set_mset] by simp
  also have "\<dots> \<subseteq> snd ` set tbl"
    by (auto simp: qualifying_def)
  finally have "e1 \<in> snd ` set tbl" "e2 \<in> snd ` set tbl"
    using s by simp_all
  with s t lenq len show ?thesis by blast
qed

text \<open>
  C3. The record rows of a report are in non-increasing order of their totals, whatever the
  registry, the mode and the cutoff. For an enabled registry whose table holds exactly three
  records, with totals 5000, 1000 and 3000 in any iteration order, the report with cutoff
  2000 is the title, the legend, the cutoff line, the header, the line \<open>(2/3)\<close> and two
  rows: the record with 5000 bytes, then the one with 3000.
\<close>

theorem report_sorted_by_size:
  "sorted_wrt (\<lambda>a b. total b \<le> total a) (rows_of (print_all_by_size g human_readable min_size))
   \<and> (enabled g \<and> the_table g = Some tbl
        \<and> mset (map (\<lambda>p. total (snd p)) tbl) = {#5000, 1000, 3000#} \<longrightarrow>
      (\<exists>e1 e2. total e1 = 5000 \<and> total e2 = 3000 \<and> e1 \<in> snd ` set tbl \<and> e2 \<in> snd ` set tbl
         \<and> print_all_by_size g human_readable 2000 =
             [Text ''Compilation memory statistics'', Text ''''] @ print_legend @
             [Text '''', Text '' (cutoff: 2000 bytes)'', Text ''''] @ print_header @
             [Text ''(2/3)'', EntryRow e1 human_readable, EntryRow e2 human_readable]))"
proof (intro conjI impI)
  show "sorted_wrt (\<lambda>a b. total b \<le> total a)
          (rows_of (print_all_by_size g human_readable min_size))"
    by (simp add: rows_of_print_all_by_size sorted_snapshot_sorted split: option.split)
next
  assume a: "enabled g \<and> the_table g = Some tbl
        \<and> mset (map (\<lambda>p. total (snd p)) tbl) = {#5000, 1000, 3000#}"
  then have en: "enabled g" and tb: "the_table g = Some tbl"
    and ms: "mset (map (\<lambda>p. total (snd p)) tbl) = {#5000, 1000, 3000#}"
    by simp_all
  from scenario_snapshot [OF ms] obtain e1 e2 where
    s: "sorted_snapshot tbl 2000 = [e1, e2]" and t: "total e1 = 5000" "total e2 = 3000"
    and m: "e1 \<in> snd ` set tbl" "e2 \<in> snd ` set tbl"
    and l: "length (qualifying tbl 2000) = 2" "length tbl = 3"
    by blast
  from l(1) have ne: "qualifying tbl 2000 \<noteq> []"
    by auto
  have "print_all_by_size g human_readable 2000 =
             [Text ''Compilation memory statistics'', Text ''''] @ print_legend @
             [Text '''', Text '' (cutoff: 2000 bytes)'', Text ''''] @ print_header @
             [Text ''(2/3)'', EntryRow e1 human_readable, EntryRow e2 human_readable]"
    by (simp add: print_all_by_size_enabled [OF en tb] s l ne show_small)
  with t m show "\<exists>e1 e2. total e1 = 5000 \<and> total e2 = 3000 \<and> e1 \<in> snd ` set tbl \<and> e2 \<in> snd ` set tbl
         \<and> print_all_by_size g human_readable 2000 =
             [Text ''Compilation memory statistics'', Text ''''] @ print_legend @
             [Text '''', Text '' (cutoff: 2000 bytes)'', Text ''''] @ print_header @
             [Text ''(2/3)'', EntryRow e1 human_readable, EntryRow e2 human_readable]"
    by blast
qed

theorem report_sorted_by_size_witness:
  "enabled example_registry
   \<and> the_table example_registry
       = Some (add_all [upsert example_method 5000, upsert other_method 1000,
                        upsert third_method 3000] [])
   \<and> mset (map (\<lambda>p. total (snd p))
         (add_all [upsert example_method 5000, upsert other_method 1000,
                   upsert third_method 3000] [])) = {#5000, 1000, 3000#}
   \<and> (\<exists>e1 e2. total e1 = 5000 \<and> total e2 = 3000
         \<and> rows_of (print_all_by_size example_registry False 2000) = [e1, e2])"
proof -
  have t: "map (\<lambda>p. total (snd p))
         (add_all [upsert example_method 5000, upsert other_method 1000,
                   upsert third_method 3000] []) = [5000, 1000, 3000]"
    by (simp add: add_all_def add_one_def add_def get_def upsert_def Let_def setter_defs
        total_def MemStatEntry_new_def example_method_def other_method_def third_method_def)
  have g: "enabled example_registry
           \<and> the_table example_registry
               = Some (add_all [upsert example_method 5000, upsert other_method 1000,
                                upsert third_method 3000] [])"
    by (simp add: example_registry_def initialize_def Let_def)
  from report_sorted_by_size [of example_registry False 2000
      "add_all [upsert example_method 5000, upsert other_method 1000,
                upsert third_method 3000] []"] g t
  show ?thesis
    by (auto simp: print_legend_def print_header_def)
qed

text \<open>
  C8. While the statistic is not enabled, \<open>print_all_by_size\<close> writes the title line and
  the line \<open>(unavailable)\<close> and nothing else, whatever the table pointer, the mode and the
  cutoff: no record row, no line of the legend, no header.
\<close>

theorem unavailable_when_disabled:
  assumes "\<not> enabled g"
  shows "print_all_by_size g human_readable min_size
           = [Text ''Compilation memory statistics'', Text ''(unavailable)'']
         \<and> rows_of (print_all_by_size g human_readable min_size) = []
         \<and> set print_legend \<inter> set (print_all_by_size g human_readable min_size) = {}
         \<and> set print_header \<inter> set (print_all_by_size g human_readable min_size) = {}"
  using assms by (simp add: print_all_by_size_def print_legend_def print_header_def)

theorem unavailable_when_disabled_witness:
  "\<not> enabled before_initialize
   \<and> print_all_by_size before_initialize False 2000
       = [Text ''Compilation memory statistics'', Text ''(unavailable)'']
   \<and> print_all_by_size (before_initialize\<lparr>the_table := Some [(example_method, MemStatEntry_new example_method)]\<rparr>) True 0
       = [Text ''Compilation memory statistics'', Text ''(unavailable)'']"
  using unavailable_when_disabled [of before_initialize False 2000]
    unavailable_when_disabled [of "before_initialize\<lparr>the_table := Some [(example_method, MemStatEntry_new example_method)]\<rparr>" True 0]
  by (simp add: before_initialize_def)

section \<open>The node count of compilations by other backends\<close>

lemma update_c2_node_count_non_c2:
  "active_backend env \<noteq> Some compiler_c2 \<Longrightarrow> update_c2_node_count env s = s"
  by (auto simp: update_c2_node_count_def active_backend_def split: option.splits)

lemma account_non_c2:
  "active_backend env \<noteq> Some compiler_c2 \<Longrightarrow>
   asc_live_nodes_at_peak (snd (account env d t s)) = asc_live_nodes_at_peak s"
  by (simp add: account_def reach_peak_def Let_def update_c2_node_count_non_c2)

lemma run_calls_non_c2:
  "list_all non_c2_call cs \<Longrightarrow>
   asc_live_nodes_at_peak (run_calls cs s) = asc_live_nodes_at_peak s"
proof (induction cs arbitrary: s)
  case Nil
  show ?case by simp
next
  case (Cons c cs)
  then show ?case
    by (cases c) (simp_all add: account_non_c2)
qed

lemma arena_changes_non_c2:
  "list_all non_c2_change changes \<Longrightarrow>
   asc_live_nodes_at_peak (fold (\<lambda>(env, diff, tag). on_arena_change env diff tag) changes s)
     = asc_live_nodes_at_peak s"
proof (induction changes arbitrary: s)
  case Nil
  show ?case by simp
next
  case (Cons ch changes)
  obtain env d t where ch: "ch = (env, d, t)" by (cases ch)
  from Cons show ?case
    by (simp add: ch non_c2_change_def on_arena_change_def account_non_c2)
qed

lemma get_put_same: "get (put k v tbl) k = Some v"
  by (induction k v tbl rule: put.induct) (simp_all add: get_def)

lemma get_add_same:
  "\<exists>e. get (add env fmn ct tot na ra ln tbl) fmn = Some e
       \<and> mse_comptype e = ct \<and> mse_total e = tot \<and> mse_na_at_peak e = na
       \<and> mse_ra_at_peak e = ra \<and> mse_live_nodes_at_peak e = ln"
  by (simp add: add_def Let_def get_put_same setter_defs split: option.splits)

text \<open>
  C7, as stated: a compilation by a backend other than C2 records a node count of zero, also
  on a tracker that an earlier C2 compilation has used. It does not: neither \<open>start()\<close> nor
  a peak event of a non-C2 compilation writes \<open>_live_nodes_at_peak\<close>. A thread compiles
  \<open>example_method\<close> with C2 and reaches its peak with 42 live nodes, then compiles
  \<open>other_method\<close> with C1; the entry of \<open>other_method\<close> has compiler type C1 and node
  count 42.
\<close>

theorem stale_node_count_counterexample:
  "recorded
     (two_compilations
        [(c2_thread 42, 1000, tag_node), (c2_thread 42, - 1000, tag_node)] (c2_thread 42)
        [(c1_thread, 500, tag_ra), (c1_thread, - 500, tag_ra)] c1_thread
        (ArenaStatCounter_new, initialize before_initialize))
     other_method = Some (compiler_c1, 42)"
  by (simp add: recorded_def two_compilations_def compilation_def on_end_compilation_def
      on_start_compilation_def on_arena_change_def Let_def c1_thread_def c2_thread_def
      example_task_def initialize_def before_initialize_def ArenaStatCounter_new_def
      account_def reach_peak_def update_detail_def update_c2_node_count_def start_def
      add_def get_def setter_defs MemStatEntry_new_def peak_since_start_def
      example_method_def other_method_def)

text \<open>
  C7, amended: a compilation whose backend is not C2 never writes the tracker's node count.
  The count recorded for it is the one the tracker held when the window started: zero on a
  tracker that has been through calls of non-C2 compilations only since its construction,
  and the count captured last otherwise.
\<close>

theorem non_c2_keeps_node_count:
  assumes "list_all non_c2_change changes"
    and "th_task env_end = Some task" and "task_compiler task = Some ct" and "ct \<noteq> compiler_c2"
    and "the_table g = Some tbl"
  shows "\<exists>arena_stat' g' tbl' e.
           compilation changes env_end (arena_stat, g) = Inr (arena_stat', g')
           \<and> asc_live_nodes_at_peak arena_stat' = asc_live_nodes_at_peak arena_stat
           \<and> the_table g' = Some tbl' \<and> get tbl' (task_method task) = Some e
           \<and> mse_comptype e = ct
           \<and> mse_live_nodes_at_peak e = asc_live_nodes_at_peak arena_stat
           \<and> (\<forall>history. list_all non_c2_call history
                 \<and> arena_stat = run_calls history ArenaStatCounter_new
                 \<longrightarrow> mse_live_nodes_at_peak e = 0)"
proof -
  let ?a2 = "fold (\<lambda>(env, diff, tag). on_arena_change env diff tag) changes
               (on_start_compilation arena_stat)"
  have keep: "asc_live_nodes_at_peak ?a2 = asc_live_nodes_at_peak arena_stat"
    using arena_changes_non_c2 [OF assms(1), of "on_start_compilation arena_stat"]
    by (simp add: on_start_compilation_def)
  let ?tbl' = "add env_end (task_method task) ct (peak_since_start ?a2) (asc_na_at_peak ?a2)
                 (asc_ra_at_peak ?a2) (asc_live_nodes_at_peak ?a2) tbl"
  have run: "compilation changes env_end (arena_stat, g) = Inr (?a2, g\<lparr>the_table := Some ?tbl'\<rparr>)"
    by (simp add: compilation_def on_end_compilation_def assms(2,3,5) Let_def)
  from get_add_same [of env_end "task_method task" ct "peak_since_start ?a2" "asc_na_at_peak ?a2"
      "asc_ra_at_peak ?a2" "asc_live_nodes_at_peak ?a2" tbl]
  obtain e where e: "get ?tbl' (task_method task) = Some e" "mse_comptype e = ct"
    "mse_live_nodes_at_peak e = asc_live_nodes_at_peak ?a2"
    by blast
  have fresh: "mse_live_nodes_at_peak e = 0"
    if "list_all non_c2_call history" "arena_stat = run_calls history ArenaStatCounter_new"
    for history
    using run_calls_non_c2 [OF that(1), of ArenaStatCounter_new] that(2) e(3) keep
    by (simp add: ArenaStatCounter_new_def)
  from run keep e fresh show ?thesis
    by auto
qed

theorem non_c2_keeps_node_count_witness:
  "list_all non_c2_change [(c1_thread, 500, tag_ra), (c1_thread, - 500, tag_ra)]
   \<and> th_task c1_thread = Some (example_task compiler_c1 other_method)
   \<and> task_compiler (example_task compiler_c1 other_method) = Some compiler_c1
   \<and> compiler_c1 \<noteq> compiler_c2
   \<and> the_table (initialize before_initialize) = Some []
   \<and> recorded (compilation [(c1_thread, 500, tag_ra), (c1_thread, - 500, tag_ra)] c1_thread
        (ArenaStatCounter_new, initialize before_initialize)) other_method
       = Some (compiler_c1, 0)"
  using non_c2_keeps_node_count [of "[(c1_thread, 500, tag_ra), (c1_thread, - 500, tag_ra)]"
      c1_thread "example_task compiler_c1 other_method" compiler_c1 "initialize before_initialize"
      "[]" ArenaStatCounter_new]
  by (auto simp: non_c2_change_def active_backend_def c1_thread_def example_task_def
      initialize_def before_initialize_def recorded_def ArenaStatCounter_new_def)

end
